theory Spec2Isabelle
  imports Complex_Main "HOL-Library.Word"
begin

section \<open>Ring outlier filter: data model\<close>

text \<open>
  The development embeds \<^verbatim>\<open>RingOutlierFilterComponent\<close> of
  \<^verbatim>\<open>ring_outlier_filter_nodelet.cpp\<close>. The byte buffer of a point cloud is read
  through typed records: one list element per point record, so that a data index of the
  source (a byte offset, always a multiple of the point step) is the position of the
  record in the list. A \<^verbatim>\<open>float\<close> or \<^verbatim>\<open>double\<close> value of the source is the real
  number that it denotes. The arithmetic of the azimuth difference and of the visibility
  value rounds its results (\<open>float32\<close> and \<open>float64\<close> below); the other floating-point
  operations are exact in the model, and infinities and NaN are not modelled.
\<close>

record PointXYZI =
  x :: real
  y :: real
  z :: real
  intensity :: real

text \<open>
  The input point type. The source reads an input point through a pointer to
  \<^verbatim>\<open>PointXYZI\<close>, that is, through its first four fields: the input record extends the
  output record.
\<close>

record PointXYZIRADRT = PointXYZI +
  ring :: "16 word"
  azimuth :: real
  distance :: real

record 'p PointCloud2 =
  point_step :: nat
  data :: "'p list"
  width :: nat
  height :: nat
  is_bigendian :: bool
  is_dense :: bool

record TransformInfo =
  need_transform :: bool
  eigen_transform :: "nat \<Rightarrow> nat \<Rightarrow> real"

text \<open>
  The member variables of the component that the filter reads. \<^verbatim>\<open>roi_mode_map_\<close> is the
  lookup table from mode names to the integers of the \<^verbatim>\<open>switch\<close> statements; it is
  declared in the header, so it is a field here. \<^verbatim>\<open>extent\<close> belongs to the model of
  \<^verbatim>\<open>isCluster\<close> below.
\<close>

record config =
  distance_ratio :: real
  object_length_threshold :: real
  num_points_threshold :: int
  max_rings_num :: "16 word"
  publish_noise_points :: bool
  x_max :: real
  x_min :: real
  y_max :: real
  y_min :: real
  z_max :: real
  z_min :: real
  min_azimuth_deg :: real
  max_azimuth_deg :: real
  max_distance :: real
  vertical_bins :: nat
  noise_threshold :: int
  roi_mode :: string
  roi_mode_map :: "string \<Rightarrow> nat"
  extent :: "PointXYZIRADRT \<Rightarrow> PointXYZIRADRT \<Rightarrow> real"

text \<open>
  What can go wrong in the source: an access outside a vector through \<^verbatim>\<open>operator[]\<close>, a
  write outside a buffer or a conversion of an unrepresentable value to an unsigned
  integer is undefined behaviour; \<^verbatim>\<open>vector::at\<close> throws \<^verbatim>\<open>std::out_of_range\<close>.
  \<open>FormatError\<close> and \<open>ConfigurationError\<close> are the errors that the specification
  names; no function of the source raises them, and none below returns them.
\<close>

datatype fault = UndefinedBehaviour | OutOfRange | FormatError | ConfigurationError

section \<open>Walk segmentation\<close>

text \<open>
  Floating-point arithmetic: the exact result of an operation is rounded to the nearest
  number with a significand of \<open>p\<close> bits, ties to the even significand.
  \<open>binary_exponent\<close> searches the binary exponent of a magnitude upwards from the least
  normal exponent \<open>emin\<close>, so that magnitudes below \<open>2 powi emin\<close> are rounded to the
  subnormal spacing; results beyond the largest finite number are not modelled.
  \<open>float32\<close> is single and \<open>float64\<close> double precision.
\<close>

definition round_ties_even :: "real \<Rightarrow> int" where
  "round_ties_even r =
     (let f = \<lfloor>r\<rfloor>
      in if r - of_int f < 1 / 2 then f
         else if 1 / 2 < r - of_int f then f + 1
         else if even f then f else f + 1)"

function binary_exponent :: "int \<Rightarrow> real \<Rightarrow> int \<Rightarrow> int" where
  "binary_exponent emax a e =
     (if e < emax \<and> 2 powi (e + 1) \<le> a then binary_exponent emax a (e + 1) else e)"
  by pat_completeness auto
termination
  by (relation "measure (\<lambda>(emax, a, e). nat (emax - e))") auto

declare binary_exponent.simps [simp del]

definition round_binary :: "int \<Rightarrow> int \<Rightarrow> int \<Rightarrow> real \<Rightarrow> real" where
  "round_binary p emin emax r =
     (let q = 2 powi (binary_exponent emax \<bar>r\<bar> emin - (p - 1))
      in of_int (round_ties_even (r / q)) * q)"

definition float32 :: "real \<Rightarrow> real" where
  "float32 = round_binary 24 (- 126) 127"

definition float64 :: "real \<Rightarrow> real" where
  "float64 = round_binary 53 (- 1022) 1023"

text \<open>
  Lines 147--148: the difference of two azimuths, with the wrap-around correction. Both
  the subtraction and the addition of \<^verbatim>\<open>36000.f\<close> are single-precision operations.
\<close>

definition azimuth_diff :: "real \<Rightarrow> real \<Rightarrow> real" where
  "azimuth_diff current_azimuth next_azimuth =
     (let d = float32 (next_azimuth - current_azimuth)
      in if d < 0 then float32 (d + 36000) else d)"

text \<open>Lines 155--159: the test that keeps the next point in the current walk.\<close>

definition same_walk :: "config \<Rightarrow> PointXYZIRADRT \<Rightarrow> PointXYZIRADRT \<Rightarrow> bool" where
  "same_walk cfg current next =
     (max (distance current) (distance next)
        < min (distance current) (distance next) * distance_ratio cfg
      \<and> azimuth_diff (azimuth current) (azimuth next) < 100)"

text \<open>
  Modelled from the spec: \<^verbatim>\<open>isCluster\<close> is defined in the header, which is not part of
  the sources. Section 4.4 of the specification: a walk is accepted as a real object when
  its point count is at least \<^verbatim>\<open>num_points_threshold\<close> or its estimated spatial extent
  is at least \<^verbatim>\<open>object_length_threshold\<close>. The function receives the data indices of
  the two ends of the walk and the walk size; the estimate of the extent from the two end
  points is the field \<^verbatim>\<open>extent\<close> of the configuration.
\<close>

definition isCluster ::
  "config \<Rightarrow> PointXYZIRADRT PointCloud2 \<Rightarrow> nat \<times> nat \<Rightarrow> int \<Rightarrow> bool" where
  "isCluster cfg input data_idx_both_ends walk_size =
     (num_points_threshold cfg \<le> walk_size
      \<or> object_length_threshold cfg
          \<le> extent cfg (data input ! fst data_idx_both_ends)
               (data input ! snd data_idx_both_ends))"

text \<open>
  Modelled from the spec: \<^verbatim>\<open>sizeof(PointXYZI)\<close>, the point step of both output buffers;
  the type is declared outside the sources. Section 6: the output layout is x, y, z and
  intensity as four \<^verbatim>\<open>float32\<close> fields.
\<close>

definition sizeof_PointXYZI :: nat where
  "sizeof_PointXYZI = 16"

definition zero_point :: PointXYZI where
  "zero_point = \<lparr>x = 0, y = 0, z = 0, intensity = 0\<rparr>"

text \<open>
  \<^verbatim>\<open>data.resize(n)\<close> for a byte count \<open>n\<close>, on a buffer of point slots of
  \<^verbatim>\<open>point_step\<close> bytes each: new bytes are zero. The byte size of a buffer is
  \<open>data_size\<close>.
\<close>

definition data_size :: "('p, 'm) PointCloud2_scheme \<Rightarrow> nat" where
  "data_size c = point_step c * length (data c)"

definition resize :: "PointXYZI PointCloud2 \<Rightarrow> nat \<Rightarrow> PointXYZI PointCloud2" where
  "resize c n =
     (let k = n div point_step c
      in c\<lparr>data := take k (data c) @ replicate (k - length (data c)) zero_point\<rparr>)"

text \<open>
  Lines 166--182 (and their three copies): one output point from one input point. The
  coordinates are transformed when required; the intensity is read from the same input
  point.
\<close>

definition copy_point :: "TransformInfo \<Rightarrow> PointXYZIRADRT \<Rightarrow> PointXYZI" where
  "copy_point ti p =
     (if need_transform ti then
        (let m = eigen_transform ti
         in \<lparr>x = m 0 0 * x p + m 0 1 * y p + m 0 2 * z p + m 0 3 * 1,
             y = m 1 0 * x p + m 1 1 * y p + m 1 2 * z p + m 1 3 * 1,
             z = m 2 0 * x p + m 2 1 * y p + m 2 2 * z p + m 2 3 * 1,
             intensity = intensity p\<rparr>)
      else \<lparr>x = x p, y = y p, z = z p, intensity = intensity p\<rparr>)"

text \<open>
  The local variables of \<^verbatim>\<open>faster_filter\<close> that its loops update. The two buffers are
  lists of point slots; the two sizes count bytes, as in the source. \<open>walks\<close> is a
  record of the calls of \<^verbatim>\<open>isCluster\<close>, in order: the walk
  \<^verbatim>\<open>[walk_first_idx, walk_last_idx]\<close> that was closed and the decision. Nothing reads
  it.
\<close>

record filter_state =
  output_data :: "PointXYZI list"
  output_size :: nat
  noise_data :: "PointXYZI list"
  noise_points_size :: nat
  walk_first_idx :: int
  walk_last_idx :: int
  walks :: "(int \<times> int \<times> bool) list"

definition emit_output :: "PointXYZI \<Rightarrow> filter_state \<Rightarrow> filter_state" where
  "emit_output q st =
     st\<lparr>output_data := (output_data st)[output_size st div sizeof_PointXYZI := q],
        output_size := output_size st + sizeof_PointXYZI\<rparr>"

definition emit_noise :: "PointXYZI \<Rightarrow> filter_state \<Rightarrow> filter_state" where
  "emit_noise q st =
     st\<lparr>noise_data := (noise_data st)[noise_points_size st div sizeof_PointXYZI := q],
        noise_points_size := noise_points_size st + sizeof_PointXYZI\<rparr>"

text \<open>Lines 162--204: a walk is closed where the next point does not continue it.\<close>

definition close_walk ::
  "config \<Rightarrow> TransformInfo \<Rightarrow> PointXYZIRADRT PointCloud2 \<Rightarrow> nat list \<Rightarrow> filter_state
     \<Rightarrow> filter_state" where
  "close_walk cfg ti input indices st =
     (let wf = walk_first_idx st; wl = walk_last_idx st;
          kept = isCluster cfg input (indices ! nat wf, indices ! nat wl) (wl - wf + 1);
          st' = st\<lparr>walks := walks st @ [(wf, wl, kept)]\<rparr>
      in if kept then
           fold (\<lambda>i. emit_output (copy_point ti (data input ! (indices ! nat i)))) [wf..wl] st'
         else if publish_noise_points cfg then
           fold (\<lambda>i. emit_noise (copy_point ti (data input ! (indices ! nat wf)))) [wf..wl] st'
         else st')"

text \<open>Lines 136--207: the body of the loop over the pairs of one ring.\<close>

definition walk_step ::
  "config \<Rightarrow> TransformInfo \<Rightarrow> PointXYZIRADRT PointCloud2 \<Rightarrow> nat list \<Rightarrow> nat
     \<Rightarrow> filter_state \<Rightarrow> filter_state" where
  "walk_step cfg ti input indices idx st0 =
     (let current_data_idx = indices ! idx;
          next_data_idx = indices ! (idx + 1);
          st = st0\<lparr>walk_last_idx := int idx\<rparr>
      in if same_walk cfg (data input ! current_data_idx) (data input ! next_data_idx)
         then st
         else (close_walk cfg ti input indices st)\<lparr>walk_first_idx := int idx + 1\<rparr>)"

text \<open>Lines 209--251: the walk that is still open at the end of a ring.\<close>

definition final_walk ::
  "config \<Rightarrow> TransformInfo \<Rightarrow> PointXYZIRADRT PointCloud2 \<Rightarrow> nat list \<Rightarrow> filter_state
     \<Rightarrow> filter_state" where
  "final_walk cfg ti input indices st =
     (let wf = walk_first_idx st; wl = walk_last_idx st
      in if wf > wl then st
         else
           (let kept = isCluster cfg input (indices ! nat wf, indices ! nat wl) (wl - wf + 1);
                st' = st\<lparr>walks := walks st @ [(wf, wl, kept)]\<rparr>
            in if kept then
                 fold (\<lambda>i. emit_output (copy_point ti (data input ! (indices ! nat i))))
                   [wf..wl] st'
               else if publish_noise_points cfg then
                 fold (\<lambda>i. emit_noise (copy_point ti (data input ! (indices ! nat i))))
                   [wf..wl - 1] st'
               else st'))"

text \<open>Lines 130--252: one ring, and all rings in order.\<close>

definition process_ring ::
  "config \<Rightarrow> TransformInfo \<Rightarrow> PointXYZIRADRT PointCloud2 \<Rightarrow> nat list \<Rightarrow> filter_state
     \<Rightarrow> filter_state" where
  "process_ring cfg ti input indices st =
     (if length indices < 2 then st
      else final_walk cfg ti input indices
             (fold (walk_step cfg ti input indices) [0..<length indices - 1]
                (st\<lparr>walk_first_idx := 0, walk_last_idx := - 1\<rparr>)))"

definition filter_rings ::
  "config \<Rightarrow> TransformInfo \<Rightarrow> PointXYZIRADRT PointCloud2 \<Rightarrow> nat list list \<Rightarrow> filter_state
     \<Rightarrow> filter_state" where
  "filter_rings cfg ti input ring2indices st =
     fold (process_ring cfg ti input) ring2indices st"

text \<open>
  Lines 113--124: the ring partition. \<^verbatim>\<open>ring2indices\<close> has \<^verbatim>\<open>max_rings_num_\<close> lists;
  \<^verbatim>\<open>ring2indices[ring]\<close> is not checked, so a ring id that is not below the number of
  lists is an access outside the vector.
\<close>

fun ring_partition ::
  "PointXYZIRADRT list \<Rightarrow> nat \<Rightarrow> nat list list \<Rightarrow> fault + nat list list" where
  "ring_partition [] data_idx ring2indices = Inr ring2indices"
| "ring_partition (p # ps) data_idx ring2indices =
     (let r = unat (ring p)
      in if r < length ring2indices
         then ring_partition ps (data_idx + 1)
                (ring2indices[r := ring2indices ! r @ [data_idx]])
         else Inl UndefinedBehaviour)"

definition ring2indices_of ::
  "config \<Rightarrow> PointXYZIRADRT PointCloud2 \<Rightarrow> fault + nat list list" where
  "ring2indices_of cfg input =
     ring_partition (data input) 0 (replicate (unat (max_rings_num cfg)) [])"

text \<open>
  Lines 338--360. The frame id and the field descriptions are not modelled. The buffer is
  resized twice: to \<^verbatim>\<open>points_size\<close>, and then to \<^verbatim>\<open>point_step * input->width\<close>.
\<close>

definition setUpPointCloudFormat ::
  "PointXYZIRADRT PointCloud2 \<Rightarrow> PointXYZI PointCloud2 \<Rightarrow> nat \<Rightarrow> PointXYZI PointCloud2" where
  "setUpPointCloudFormat input formatted_points points_size =
     (let f1 = resize formatted_points points_size;
          f2 = resize f1 (point_step f1 * width input)
      in f2\<lparr>height := 1,
            width := data_size f2 div point_step f2,
            is_bigendian := is_bigendian input,
            is_dense := is_dense input\<rparr>)"

section \<open>Visibility estimation\<close>

text \<open>
  \<^verbatim>\<open>static_cast<uint32_t>\<close> of a floating-point value truncates towards zero; the
  behaviour is undefined when the truncated value is not representable (\<open>None\<close>).
\<close>

definition uint_cast :: "real \<Rightarrow> 32 word option" where
  "uint_cast r =
     (if - 1 < r \<and> r < 2 ^ 32 then Some (word_of_int (if r < 0 then 0 else \<lfloor>r\<rfloor>))
      else None)"

definition horizontal_bins :: "32 word" where
  "horizontal_bins = 36"

text \<open>Lines 371--387: the azimuth window of the active mode.\<close>

definition max_azimuth :: "config \<Rightarrow> real" where
  "max_azimuth cfg =
     (if roi_mode_map cfg (roi_mode cfg) = 2 then max_azimuth_deg cfg * 100 else 36000)"

definition min_azimuth :: "config \<Rightarrow> real" where
  "min_azimuth cfg =
     (if roi_mode_map cfg (roi_mode cfg) = 2 then min_azimuth_deg cfg * 100 else 0)"

text \<open>Lines 390--391.\<close>

definition horizontal_resolution :: "config \<Rightarrow> 32 word option" where
  "horizontal_resolution cfg =
     uint_cast ((max_azimuth cfg - min_azimuth cfg) / real (unat horizontal_bins))"

text \<open>
  Lines 428--429: the upper azimuth of segment \<open>i\<close>, in unsigned arithmetic. The
  quotient is a floating-point division; with a resolution of zero it is infinite or not
  a number, and its conversion is undefined.
\<close>

definition segment_bound :: "config \<Rightarrow> 32 word \<Rightarrow> 32 word \<Rightarrow> 32 word option" where
  "segment_bound cfg resolution i =
     (if resolution = 0 then None
      else map_option (\<lambda>q. (i + 1 + q) * resolution)
             (uint_cast (min_azimuth cfg / real (unat resolution))))"

text \<open>Lines 432--458: whether a point counts towards its segment.\<close>

definition in_roi :: "config \<Rightarrow> PointXYZIRADRT \<Rightarrow> bool" where
  "in_roi cfg p =
     (if roi_mode_map cfg (roi_mode cfg) = 1 then
        x p < x_max cfg \<and> x p > x_min cfg \<and> y p > y_max cfg \<and> y p < y_min cfg
        \<and> z p < z_max cfg \<and> z p > z_min cfg
      else if roi_mode_map cfg (roi_mode cfg) = 2 then
        azimuth p < max_azimuth cfg \<and> azimuth p > min_azimuth cfg
        \<and> distance p < max_distance cfg
      else True)"

text \<open>
  Lines 423--469: the inner loop of one segment. It returns the scan index and the count
  of the segment.
\<close>

function scan_segment ::
  "config \<Rightarrow> 32 word \<Rightarrow> 32 word \<Rightarrow> PointXYZIRADRT list \<Rightarrow> bool \<Rightarrow> nat \<Rightarrow> int
     \<Rightarrow> fault + nat \<times> int" where
  "scan_segment cfg resolution i single_ring condition current_temp_segment_index n =
     (if condition \<and> current_temp_segment_index < length single_ring - 1 then
        (case segment_bound cfg resolution i of
           None \<Rightarrow> Inl UndefinedBehaviour
         | Some b \<Rightarrow>
             (let p = single_ring ! current_temp_segment_index;
                  condition' = ((if azimuth p < 0 then 0 else azimuth p) < real (unat b))
              in scan_segment cfg resolution i single_ring condition'
                   (current_temp_segment_index + 1)
                   (if condition' \<and> in_roi cfg p then n + 1 else n)))
      else Inr (current_temp_segment_index, n))"
  by pat_completeness auto
termination
  by (relation "measure (\<lambda>(cfg, resolution, i, single_ring, condition, k, n).
        length single_ring - k)") auto

declare scan_segment.simps [simp del]

text \<open>
  Lines 419--477: the segments of one ring, for the values of \<open>i\<close> that the loop takes;
  \<open>noise_frequency\<close> is the row of counts and \<open>row\<close> the row of the image.
\<close>

fun analyze_segments ::
  "config \<Rightarrow> 32 word \<Rightarrow> PointXYZIRADRT list \<Rightarrow> nat list \<Rightarrow> nat \<Rightarrow> 8 word list
     \<Rightarrow> fault + 8 word list" where
  "analyze_segments cfg resolution single_ring [] current_temp_segment_index row = Inr row"
| "analyze_segments cfg resolution single_ring (i # rest) current_temp_segment_index row =
     (case scan_segment cfg resolution (of_nat i) single_ring True
             current_temp_segment_index 0 of
        Inl e \<Rightarrow> Inl e
      | Inr (k, n) \<Rightarrow>
          analyze_segments cfg resolution single_ring rest k
            (row[i := word_of_int (min n 255)]))"

definition analyze_ring ::
  "config \<Rightarrow> 32 word \<Rightarrow> PointXYZIRADRT list \<Rightarrow> 8 word list \<Rightarrow> fault + 8 word list" where
  "analyze_ring cfg resolution single_ring row =
     analyze_segments cfg resolution single_ring [0..<unat horizontal_bins - 1] 0 row"

text \<open>Lines 406--478: the loop over the rings; rings without points are skipped.\<close>

fun analyze_rings ::
  "config \<Rightarrow> 32 word \<Rightarrow> PointXYZIRADRT list list \<Rightarrow> 8 word list list
     \<Rightarrow> fault + 8 word list list" where
  "analyze_rings cfg resolution [] frequency_image = Inr frequency_image"
| "analyze_rings cfg resolution (single_ring # rest) frequency_image =
     (if single_ring = [] then analyze_rings cfg resolution rest frequency_image
      else
        (let ring_id = unat (ring (hd single_ring))
         in case analyze_ring cfg resolution single_ring (frequency_image ! ring_id) of
              Inl e \<Rightarrow> Inl e
            | Inr row \<Rightarrow>
                analyze_rings cfg resolution rest (frequency_image[ring_id := row])))"

text \<open>Lines 400--402: the rings of the visibility pass; \<^verbatim>\<open>at\<close> checks the ring id.\<close>

fun split_rings ::
  "PointXYZIRADRT list \<Rightarrow> PointXYZIRADRT list list \<Rightarrow> fault + PointXYZIRADRT list list" where
  "split_rings [] pcl_noise_ring_array = Inr pcl_noise_ring_array"
| "split_rings (p # ps) pcl_noise_ring_array =
     (let r = unat (ring p)
      in if r < length pcl_noise_ring_array
         then split_rings ps (pcl_noise_ring_array[r := pcl_noise_ring_array ! r @ [p]])
         else Inl OutOfRange)"

text \<open>\<^verbatim>\<open>cv::inRange\<close> with the bounds of line 483: both bounds are inclusive.\<close>

definition inRange :: "8 word list list \<Rightarrow> int \<Rightarrow> int \<Rightarrow> 8 word list list" where
  "inRange img lowerb upperb =
     map (map (\<lambda>c. if lowerb \<le> uint c \<and> uint c \<le> upperb then 255 else 0)) img"

text \<open>Lines 362--485.\<close>

definition createBinaryImage ::
  "config \<Rightarrow> PointXYZIRADRT PointCloud2 \<Rightarrow> fault + 8 word list list" where
  "createBinaryImage cfg input =
     (case horizontal_resolution cfg of
        None \<Rightarrow> Inl UndefinedBehaviour
      | Some resolution \<Rightarrow>
          (case split_rings (data input) (replicate (vertical_bins cfg) []) of
             Inl e \<Rightarrow> Inl e
           | Inr pcl_noise_ring_array \<Rightarrow>
               (case analyze_rings cfg resolution pcl_noise_ring_array
                       (replicate (vertical_bins cfg) (replicate (unat horizontal_bins) 0)) of
                  Inl e \<Rightarrow> Inl e
                | Inr frequency_image \<Rightarrow>
                    Inr (inRange frequency_image (noise_threshold cfg) 255))))"

text \<open>
  Lines 362--478: the frequency image before line 483 turns it into the binary image, that
  is, the histogram of the counts.
\<close>

definition frequency_image_of ::
  "config \<Rightarrow> PointXYZIRADRT PointCloud2 \<Rightarrow> fault + 8 word list list" where
  "frequency_image_of cfg input =
     (case horizontal_resolution cfg of
        None \<Rightarrow> Inl UndefinedBehaviour
      | Some resolution \<Rightarrow>
          (case split_rings (data input) (replicate (vertical_bins cfg) []) of
             Inl e \<Rightarrow> Inl e
           | Inr pcl_noise_ring_array \<Rightarrow>
               analyze_rings cfg resolution pcl_noise_ring_array
                 (replicate (vertical_bins cfg) (replicate (unat horizontal_bins) 0))))"

definition countNonZero :: "8 word list list \<Rightarrow> nat" where
  "countNonZero img = length (filter (\<lambda>c. c \<noteq> 0) (concat img))"

text \<open>
  Lines 487--494. The product of the two bin counts is a 32-bit unsigned product. The two
  integers are converted to single precision and the quotient is a single-precision
  division; it is infinite or not a number when the product is zero (\<open>None\<close>).
\<close>

definition calculateFilledPixels :: "8 word list list \<Rightarrow> 32 word \<Rightarrow> 32 word \<Rightarrow> real option" where
  "calculateFilledPixels frequency_image vbins hbins =
     (let num_pixels = countNonZero frequency_image
      in if vbins * hbins = 0 then None
         else Some (float32 (float32 (real num_pixels)
                      / float32 (real (unat (vbins * hbins))))))"

text \<open>
  Lines 261 and 271: the value of the visibility message. The quotient is held in a
  \<^verbatim>\<open>double\<close>, the subtraction is a double-precision operation and the message field is
  single precision.
\<close>

definition visibility :: "8 word list list \<Rightarrow> 32 word \<Rightarrow> 32 word \<Rightarrow> real option" where
  "visibility frequency_image vbins hbins =
     map_option (\<lambda>num_filled_pixels. float32 (float64 (1 - num_filled_pixels)))
       (calculateFilledPixels frequency_image vbins hbins)"

section \<open>The filter\<close>

text \<open>
  What a frame publishes besides its output: the noise points, the histogram image (the
  image that \<^verbatim>\<open>toFrequencyImageMsg\<close> colours) and the visibility. The messages of the
  debug publisher (timing) are not modelled.
\<close>

datatype message =
  NoisePoints "PointXYZI PointCloud2"
| FrequencyImage "8 word list list"
| Visibility "real option"

text \<open>
  Lines 92--102 and 126--128: the two buffers before the rings are walked. The output
  buffer of the caller is resized to one slot for each point of the input; the noise
  buffer is a new cloud, sized only when noise points are published.
\<close>

definition initial_state ::
  "config \<Rightarrow> PointXYZIRADRT PointCloud2 \<Rightarrow> PointXYZI PointCloud2 \<Rightarrow> filter_state" where
  "initial_state cfg input output =
     \<lparr>output_data =
        data (resize (output\<lparr>point_step := sizeof_PointXYZI\<rparr>)
                (sizeof_PointXYZI * width input)),
      output_size = 0,
      noise_data =
        (if publish_noise_points cfg
         then data (resize \<lparr>point_step = sizeof_PointXYZI, data = [], width = 0, height = 0,
                             is_bigendian = False, is_dense = False\<rparr>
                      (sizeof_PointXYZI * width input))
         else []),
      noise_points_size = 0,
      walk_first_idx = 0,
      walk_last_idx = - 1,
      walks = []\<rparr>"

text \<open>
  Lines 82--293. The result is the list of the messages published, in order, and either
  the fault that ended the frame or the output cloud. A write past the end of a buffer is
  undefined; since the two sizes only grow, it has happened exactly when a final size
  exceeds the bytes of its buffer. The fields of the output that its caller has set
  (\<open>output\<close>) are kept.
\<close>

definition faster_filter ::
  "config \<Rightarrow> TransformInfo \<Rightarrow> PointXYZIRADRT PointCloud2 \<Rightarrow> PointXYZI PointCloud2
     \<Rightarrow> message list \<times> (fault + PointXYZI PointCloud2)" where
  "faster_filter cfg ti input output =
     (case ring2indices_of cfg input of
        Inl e \<Rightarrow> ([], Inl e)
      | Inr ring2indices \<Rightarrow>
          (let st = filter_rings cfg ti input ring2indices (initial_state cfg input output)
           in if sizeof_PointXYZI * length (output_data st) < output_size st
                 \<or> (publish_noise_points cfg
                     \<and> sizeof_PointXYZI * length (noise_data st) < noise_points_size st)
              then ([], Inl UndefinedBehaviour)
              else
                (let out = setUpPointCloudFormat input
                             (output\<lparr>point_step := sizeof_PointXYZI, data := output_data st\<rparr>)
                             (output_size st)
                 in if publish_noise_points cfg then
                      (let noise_points = setUpPointCloudFormat input
                             \<lparr>point_step = sizeof_PointXYZI, data = noise_data st, width = 0,
                              height = 0, is_bigendian = False, is_dense = False\<rparr>
                             (noise_points_size st)
                       in case createBinaryImage cfg input of
                            Inl e \<Rightarrow> ([NoisePoints noise_points], Inl e)
                          | Inr frequency_image \<Rightarrow>
                              ([NoisePoints noise_points, FrequencyImage frequency_image,
                                Visibility (visibility frequency_image
                                  (of_nat (vertical_bins cfg)) 36)],
                               Inr out))
                    else ([], Inr out))))"

section \<open>Test frames\<close>

text \<open>
  Concrete inputs for the evaluations below: a sensor with one ring, points at distance
  10 that differ in azimuth and intensity, the default thresholds of the component, and
  the sum of the coordinate differences of the two end points as the estimate of the
  extent of a walk.
\<close>

definition test_point :: "real \<Rightarrow> real \<Rightarrow> 16 word \<Rightarrow> PointXYZIRADRT" where
  "test_point a i r =
     \<lparr>x = 10, y = 0, z = 0, intensity = i, ring = r, azimuth = a, distance = 10\<rparr>"

definition test_config :: "bool \<Rightarrow> int \<Rightarrow> string \<Rightarrow> config" where
  "test_config publish threshold mode =
     \<lparr>distance_ratio = 103 / 100, object_length_threshold = 1 / 10,
      num_points_threshold = threshold, max_rings_num = 1, publish_noise_points = publish,
      x_max = 18, x_min = - 12, y_max = 2, y_min = - 2, z_max = 10, z_min = 0,
      min_azimuth_deg = 135, max_azimuth_deg = 225, max_distance = 12,
      vertical_bins = 1, noise_threshold = 2, roi_mode = mode,
      roi_mode_map =
        (\<lambda>s. if s = ''Fixed_xyz_ROI'' then 1 else if s = ''Fixed_azimuth_ROI'' then 2 else 0),
      extent = (\<lambda>p q. \<bar>x p - x q\<bar> + \<bar>y p - y q\<bar> + \<bar>z p - z q\<bar>)\<rparr>"

definition no_transform :: TransformInfo where
  "no_transform = \<lparr>need_transform = False, eigen_transform = (\<lambda>i j. 0)\<rparr>"

definition test_cloud :: "PointXYZIRADRT list \<Rightarrow> PointXYZIRADRT PointCloud2" where
  "test_cloud ps =
     \<lparr>point_step = 32, data = ps, width = length ps, height = 1, is_bigendian = False,
      is_dense = True\<rparr>"

definition empty_output :: "PointXYZI PointCloud2" where
  "empty_output =
     \<lparr>point_step = 0, data = [], width = 0, height = 0, is_bigendian = False,
      is_dense = False\<rparr>"

definition five_points :: "PointXYZIRADRT PointCloud2" where
  "five_points =
     test_cloud [test_point 0 1 0, test_point 10 2 0, test_point 20 3 0, test_point 30 4 0,
       test_point 40 5 0]"

definition three_points :: "PointXYZIRADRT PointCloud2" where
  "three_points = test_cloud [test_point 0 1 0, test_point 10 2 0, test_point 160 3 0]"

definition last_sector_points :: "PointXYZIRADRT PointCloud2" where
  "last_sector_points = test_cloud (replicate 37 (test_point 35500 1 0))"

section \<open>Walks as index ranges\<close>

text \<open>
  The positions of a ring that a list of closed walks holds, in the order of the list,
  are the positions below \<open>n\<close> in increasing order, each once; no walk is empty.
\<close>

abbreviation covers :: "(int \<times> int \<times> bool) list \<Rightarrow> int \<Rightarrow> bool" where
  "covers ws n \<equiv>
     (concat (map (\<lambda>(first, last, kept). [first..last]) ws) = [0..n - 1]
      \<and> list_all (\<lambda>(first, last, kept). first \<le> last) ws)"

section \<open>Properties\<close>

subsection \<open>Floating-point rounding\<close>

lemma round_ties_even_le: "r \<le> of_int k \<Longrightarrow> round_ties_even r \<le> k"
proof -
  assume h: "r \<le> of_int k"
  show ?thesis
  proof (cases "r = of_int k")
    case True
    then show ?thesis by (simp add: round_ties_even_def)
  next
    case False
    then have "r < of_int k" using h by simp
    then have "\<lfloor>r\<rfloor> < k" by (simp add: floor_less_iff)
    then show ?thesis by (simp add: round_ties_even_def Let_def)
  qed
qed

lemma round_ties_even_ge: "of_int k \<le> r \<Longrightarrow> k \<le> round_ties_even r"
proof -
  assume "of_int k \<le> r"
  then have "k \<le> \<lfloor>r\<rfloor>" by (simp add: le_floor_iff)
  then show ?thesis by (simp add: round_ties_even_def Let_def)
qed

lemma round_ties_even_mono: "r \<le> s \<Longrightarrow> round_ties_even r \<le> round_ties_even s"
proof -
  assume h: "r \<le> s"
  then have fl: "\<lfloor>r\<rfloor> \<le> \<lfloor>s\<rfloor>" by (rule floor_mono)
  show ?thesis
  proof (cases "\<lfloor>r\<rfloor> = \<lfloor>s\<rfloor>")
    case True
    then show ?thesis using h by (auto simp add: round_ties_even_def Let_def)
  next
    case False
    then have "\<lfloor>r\<rfloor> + 1 \<le> \<lfloor>s\<rfloor>" using fl by simp
    moreover have "round_ties_even r \<le> \<lfloor>r\<rfloor> + 1"
      by (simp add: round_ties_even_def Let_def)
    moreover have "\<lfloor>s\<rfloor> \<le> round_ties_even s"
      by (simp add: round_ties_even_def Let_def)
    ultimately show ?thesis by simp
  qed
qed

lemma binary_exponent_ge: "e \<le> binary_exponent emax a e"
proof (induction emax a e rule: binary_exponent.induct)
  case (1 emax a e)
  show ?case
  proof (cases "e < emax \<and> 2 powi (e + 1) \<le> a")
    case True
    then show ?thesis
      using "1.IH" by (subst binary_exponent.simps) simp
  next
    case False
    then show ?thesis by (subst binary_exponent.simps) auto
  qed
qed

lemma binary_exponent_lower:
  "e < binary_exponent emax a e \<Longrightarrow> 2 powi (binary_exponent emax a e) \<le> a"
proof (induction emax a e rule: binary_exponent.induct)
  case (1 emax a e)
  show ?case
  proof (cases "e < emax \<and> 2 powi (e + 1) \<le> a")
    case True
    then have eq: "binary_exponent emax a e = binary_exponent emax a (e + 1)"
      by (subst binary_exponent.simps) simp
    show ?thesis
    proof (cases "e + 1 < binary_exponent emax a (e + 1)")
      case True
      then show ?thesis
        using "1.IH"[OF \<open>e < emax \<and> 2 powi (e + 1) \<le> a\<close>] eq by simp
    next
      case False
      then have "binary_exponent emax a (e + 1) = e + 1"
        using binary_exponent_ge[of "e + 1" emax a] by simp
      then show ?thesis using True eq by simp
    qed
  next
    case False
    then have "binary_exponent emax a e = e" by (subst binary_exponent.simps) auto
    then show ?thesis using "1.prems" by simp
  qed
qed

lemma binary_exponent_upper:
  "binary_exponent emax a e < emax \<Longrightarrow> a < 2 powi (binary_exponent emax a e + 1)"
proof (induction emax a e rule: binary_exponent.induct)
  case (1 emax a e)
  show ?case
  proof (cases "e < emax \<and> 2 powi (e + 1) \<le> a")
    case True
    then have eq: "binary_exponent emax a e = binary_exponent emax a (e + 1)"
      by (subst binary_exponent.simps) simp
    show ?thesis
      using "1.IH"[OF True] "1.prems" unfolding eq by simp
  next
    case False
    then have eq: "binary_exponent emax a e = e" by (subst binary_exponent.simps) auto
    show ?thesis using False "1.prems" unfolding eq by auto
  qed
qed

lemma binary_exponent_eq:
  "s \<le> e \<Longrightarrow> e \<le> emax \<Longrightarrow> 2 powi e \<le> a \<Longrightarrow> a < 2 powi (e + 1) \<Longrightarrow>
   binary_exponent emax a s = e"
proof (induction emax a s rule: binary_exponent.induct)
  case (1 emax a s)
  show ?case
  proof (cases "s = e")
    case True
    then show ?thesis using "1.prems" by (subst binary_exponent.simps) simp
  next
    case False
    then have lt: "s < e" using "1.prems"(1) by simp
    have "(2 :: real) powi (s + 1) \<le> 2 powi e"
      by (rule power_int_increasing) (use lt in simp_all)
    then have c: "s < emax \<and> 2 powi (s + 1) \<le> a"
      using lt "1.prems" by simp
    have "binary_exponent emax a (s + 1) = e"
      by (rule "1.IH"[OF c]) (use lt "1.prems" in simp_all)
    then show ?thesis using c by (subst binary_exponent.simps) simp
  qed
qed

lemma binary_exponent_mono:
  assumes "a \<le> b"
  shows "binary_exponent emax a emin \<le> binary_exponent emax b emin"
proof (rule ccontr)
  assume "\<not> ?thesis"
  then have lt: "binary_exponent emax b emin < binary_exponent emax a emin" by simp
  have "emin < binary_exponent emax a emin"
    using lt binary_exponent_ge[of emin emax b] by simp
  from binary_exponent_lower[OF this]
  have lo: "2 powi (binary_exponent emax a emin) \<le> a" .
  show False
  proof (cases "binary_exponent emax b emin < emax")
    case True
    from binary_exponent_upper[OF this]
    have "b < 2 powi (binary_exponent emax b emin + 1)" .
    moreover have "(2 :: real) powi (binary_exponent emax b emin + 1)
        \<le> 2 powi (binary_exponent emax a emin)"
      by (rule power_int_increasing) (use lt in simp_all)
    ultimately show False using lo assms by simp
  next
    case False
    then have big: "emax < binary_exponent emax a emin" using lt by simp
    have "\<And>e. e \<le> max e emax \<Longrightarrow> binary_exponent emax a e \<le> max e emax"
    proof -
      fix e :: int
      show "binary_exponent emax a e \<le> max e emax"
      proof (induction emax a e rule: binary_exponent.induct)
        case (1 emax a e)
        show ?case
        proof (cases "e < emax \<and> 2 powi (e + 1) \<le> a")
          case True
          then show ?thesis
            using "1.IH"[OF True] by (subst binary_exponent.simps) simp
        next
          case False
          then show ?thesis by (subst binary_exponent.simps) auto
        qed
      qed
    qed
    then have "binary_exponent emax a emin \<le> max emin emax" by simp
    moreover have "emin \<le> binary_exponent emax b emin" by (rule binary_exponent_ge)
    ultimately show False using big False lt by simp
  qed
qed

lemma round_binary_le:
  assumes "r \<le> B"
    and "B / 2 powi (binary_exponent emax \<bar>r\<bar> emin - (p - 1)) = of_int K"
  shows "round_binary p emin emax r \<le> B"
proof -
  define q :: real where "q = 2 powi (binary_exponent emax \<bar>r\<bar> emin - (p - 1))"
  have qpos: "0 < q" by (simp add: q_def)
  have Kq: "of_int K * q = B" using assms(2) qpos by (simp add: q_def field_simps)
  have "r / q \<le> of_int K"
    using assms(1) qpos Kq by (simp add: field_simps)
  from round_ties_even_le[OF this]
  have "(of_int (round_ties_even (r / q)) :: real) \<le> of_int K" by (simp only: of_int_le_iff)
  then have "of_int (round_ties_even (r / q)) * q \<le> of_int K * q"
    using qpos by (intro mult_right_mono) simp_all
  then show ?thesis by (simp add: round_binary_def Let_def Kq flip: q_def)
qed

lemma round_binary_ge:
  assumes "B \<le> r"
    and "B / 2 powi (binary_exponent emax \<bar>r\<bar> emin - (p - 1)) = of_int K"
  shows "B \<le> round_binary p emin emax r"
proof -
  define q :: real where "q = 2 powi (binary_exponent emax \<bar>r\<bar> emin - (p - 1))"
  have qpos: "0 < q" by (simp add: q_def)
  have Kq: "of_int K * q = B" using assms(2) qpos by (simp add: q_def field_simps)
  have "of_int K \<le> r / q"
    using assms(1) qpos Kq by (simp add: field_simps)
  from round_ties_even_ge[OF this]
  have "(of_int K :: real) \<le> of_int (round_ties_even (r / q))" by (simp only: of_int_le_iff)
  then have "of_int K * q \<le> of_int (round_ties_even (r / q)) * q"
    using qpos by (intro mult_right_mono) simp_all
  then show ?thesis by (simp add: round_binary_def Let_def Kq flip: q_def)
qed

lemma power_int_quotient:
  "m \<le> n \<Longrightarrow> (2 :: real) powi n / 2 powi m = of_int (2 ^ nat (n - m))"
proof -
  assume "m \<le> n"
  have "(2 :: real) powi n / 2 powi m = 2 powi (n - m)"
    by (simp add: power_int_diff)
  also have "\<dots> = 2 ^ nat (n - m)"
    by (rule power_int_nonneg_exp) (use \<open>m \<le> n\<close> in simp)
  finally show ?thesis by simp
qed

lemma int_quotient:
  "e \<le> p - 1 \<Longrightarrow> of_int M / (2 :: real) powi (e - (p - 1)) = of_int (M * 2 ^ nat (p - 1 - e))"
proof -
  assume h: "e \<le> p - 1"
  have "1 / (2 :: real) powi (e - (p - 1)) = 2 powi (- (e - (p - 1)))"
    by (rule power_int_minus_divide[symmetric])
  also have "\<dots> = 2 powi (p - 1 - e)" by simp
  also have "\<dots> = 2 ^ nat (p - 1 - e)"
    by (rule power_int_nonneg_exp) (use h in simp)
  finally have "1 / (2 :: real) powi (e - (p - 1)) = 2 ^ nat (p - 1 - e)" .
  then have "of_int M / (2 :: real) powi (e - (p - 1)) = of_int M * 2 ^ nat (p - 1 - e)"
    by (simp add: field_simps)
  then show ?thesis by simp
qed

text \<open>Bounds by an integer of small exponent.\<close>

lemma round_binary_int_bound:
  assumes "- of_int M \<le> r" "r \<le> of_int M" "of_int M < (2 :: real) powi (E + 1)"
    "E \<le> p - 1" "emin \<le> E"
  shows "- of_int M \<le> round_binary p emin emax r \<and> round_binary p emin emax r \<le> of_int M
     \<and> (0 \<le> r \<longrightarrow> 0 \<le> round_binary p emin emax r)"
proof -
  define e where "e = binary_exponent emax \<bar>r\<bar> emin"
  have e_le: "e \<le> E"
  proof (rule ccontr)
    assume "\<not> e \<le> E"
    then have big: "E + 1 \<le> e" by simp
    then have "emin < binary_exponent emax \<bar>r\<bar> emin" using assms(5) by (simp add: e_def)
    from binary_exponent_lower[OF this] have "2 powi e \<le> \<bar>r\<bar>" by (simp add: e_def)
    moreover have "(2 :: real) powi (E + 1) \<le> 2 powi e"
      by (rule power_int_increasing) (use big in simp_all)
    ultimately show False using assms(1,2,3) by simp
  qed
  then have ep: "e \<le> p - 1" using assms(4) by simp
  have q1: "of_int M / 2 powi (binary_exponent emax \<bar>r\<bar> emin - (p - 1))
      = (of_int (M * 2 ^ nat (p - 1 - e)) :: real)"
    using int_quotient[OF ep, of M] by (simp only: e_def)
  have q2: "of_int (- M) / 2 powi (binary_exponent emax \<bar>r\<bar> emin - (p - 1))
      = (of_int (- M * 2 ^ nat (p - 1 - e)) :: real)"
    using int_quotient[OF ep, of "- M"] by (simp only: e_def)
  have up: "round_binary p emin emax r \<le> of_int M"
    by (rule round_binary_le[OF assms(2) q1])
  have "(of_int (- M) :: real) \<le> r" using assms(1) by simp
  from round_binary_ge[OF this q2]
  have "of_int (- M) \<le> round_binary p emin emax r" .
  then have lo: "- of_int M \<le> round_binary p emin emax r" by simp
  have "0 \<le> round_binary p emin emax r" if "0 \<le> r"
    by (rule round_binary_ge[of 0 r _ _ _ 0]) (use that in simp_all)
  then show ?thesis using up lo by simp
qed

lemma round_binary_mono:
  assumes "0 \<le> r" "r \<le> s" "1 \<le> p" "emin \<le> emax"
  shows "round_binary p emin emax r \<le> round_binary p emin emax s"
proof -
  define er where "er = binary_exponent emax \<bar>r\<bar> emin"
  define es where "es = binary_exponent emax \<bar>s\<bar> emin"
  have le: "er \<le> es"
    unfolding er_def es_def by (rule binary_exponent_mono) (use assms in simp)
  show ?thesis
  proof (cases "er = es")
    case True
    define q :: real where "q = 2 powi (er - (p - 1))"
    have qpos: "0 < q" by (simp add: q_def)
    have "r / q \<le> s / q" using assms(2) qpos by (simp add: divide_right_mono)
    from round_ties_even_mono[OF this]
    have "(of_int (round_ties_even (r / q)) :: real) \<le> of_int (round_ties_even (s / q))"
      by (simp only: of_int_le_iff)
    then have "of_int (round_ties_even (r / q)) * q \<le> of_int (round_ties_even (s / q)) * q"
      using qpos by (intro mult_right_mono) simp_all
    then show ?thesis
      using True by (simp add: round_binary_def Let_def q_def flip: er_def es_def)
  next
    case False
    then have lt: "er < es" using le by simp
    have es_max: "es \<le> max emin emax"
    proof -
      have "binary_exponent emax a e \<le> max e emax" for a e
      proof (induction emax a e rule: binary_exponent.induct)
        case (1 emax a e)
        show ?case
        proof (cases "e < emax \<and> 2 powi (e + 1) \<le> a")
          case True
          then show ?thesis
            using "1.IH"[OF True] by (subst binary_exponent.simps) simp
        next
          case False
          then show ?thesis by (subst binary_exponent.simps) auto
        qed
      qed
      then show ?thesis by (simp add: es_def)
    qed
    then have "er < emax" using lt assms(4) by simp
    then have "\<bar>r\<bar> < 2 powi (er + 1)"
      unfolding er_def by (rule binary_exponent_upper)
    then have rB: "r \<le> 2 powi (er + 1)" by simp
    have "(2 :: real) powi (er + 1) / 2 powi (er - (p - 1)) = of_int (2 ^ nat (er + 1 - (er - (p - 1))))"
      by (rule power_int_quotient) (use assms(3) in simp)
    then have up: "round_binary p emin emax r \<le> 2 powi (er + 1)"
      using round_binary_le[OF rB, of emax emin p] by (simp add: er_def)
    have "emin \<le> er" unfolding er_def by (rule binary_exponent_ge)
    then have "emin < binary_exponent emax \<bar>s\<bar> emin" using lt by (simp add: es_def)
    from binary_exponent_lower[OF this] have "2 powi es \<le> \<bar>s\<bar>" by (simp add: es_def)
    then have sC: "2 powi es \<le> s" using assms(1,2) by simp
    have "(2 :: real) powi es / 2 powi (es - (p - 1)) = of_int (2 ^ nat (es - (es - (p - 1))))"
      by (rule power_int_quotient) (use assms(3) in simp)
    then have lo: "2 powi es \<le> round_binary p emin emax s"
      using round_binary_ge[OF sC, of emax emin p] by (simp add: es_def)
    have "(2 :: real) powi (er + 1) \<le> 2 powi es"
      by (rule power_int_increasing) (use lt in simp_all)
    then show ?thesis using up lo by simp
  qed
qed

lemma round_binary_eval:
  assumes "emin \<le> e" "e \<le> emax" "2 powi e \<le> \<bar>r\<bar>" "\<bar>r\<bar> < 2 powi (e + 1)"
  shows "round_binary p emin emax r
       = of_int (round_ties_even (r / 2 powi (e - (p - 1)))) * 2 powi (e - (p - 1))"
  using binary_exponent_eq[OF assms] by (simp add: round_binary_def Let_def)

lemma round_binary_0: "round_binary p emin emax 0 = 0"
  by (simp add: round_binary_def Let_def round_ties_even_def)

lemma float32_eval:
  assumes "- 126 \<le> e" "e \<le> 127" "2 powi e \<le> \<bar>r\<bar>" "\<bar>r\<bar> < 2 powi (e + 1)"
  shows "float32 r = of_int (round_ties_even (r / 2 powi (e - 23))) * 2 powi (e - 23)"
  using round_binary_eval[OF assms, of 24] by (simp add: float32_def)

lemma float64_eval:
  assumes "- 1022 \<le> e" "e \<le> 1023" "2 powi e \<le> \<bar>r\<bar>" "\<bar>r\<bar> < 2 powi (e + 1)"
  shows "float64 r = of_int (round_ties_even (r / 2 powi (e - 52))) * 2 powi (e - 52)"
  using round_binary_eval[OF assms, of 53] by (simp add: float64_def)

lemma float32_0: "float32 0 = 0"
  by (simp add: float32_def round_binary_0)

lemma float64_0: "float64 0 = 0"
  by (simp add: float64_def round_binary_0)

lemma float32_1: "float32 1 = 1"
  using float32_eval[of 0 1] by (simp add: round_ties_even_def)

lemma float64_1: "float64 1 = 1"
  using float64_eval[of 0 1] by (simp add: round_ties_even_def)

lemma float32_10: "float32 10 = 10"
  using float32_eval[of 3 10] by (simp add: round_ties_even_def)

lemma float32_150: "float32 150 = 150"
  using float32_eval[of 7 150] by (simp add: round_ties_even_def)

lemma float32_100: "float32 100 = 100"
  using float32_eval[of 6 100] by (simp add: round_ties_even_def)

lemma float32_m35900: "float32 (- 35900) = - 35900"
  using float32_eval[of 15 "- 35900"] by (simp add: round_ties_even_def)

lemma float32_bound:
  assumes "- 36000 \<le> r" "r \<le> 36000"
  shows "- 36000 \<le> float32 r \<and> float32 r \<le> 36000 \<and> (0 \<le> r \<longrightarrow> 0 \<le> float32 r)"
  using round_binary_int_bound[of 36000 r 15 24 "- 126" 127] assms
  by (simp add: float32_def)

lemma float32_mono: "0 \<le> r \<Longrightarrow> r \<le> s \<Longrightarrow> float32 r \<le> float32 s"
  unfolding float32_def by (rule round_binary_mono) simp_all

lemma float64_mono: "0 \<le> r \<Longrightarrow> r \<le> s \<Longrightarrow> float64 r \<le> float64 s"
  unfolding float64_def by (rule round_binary_mono) simp_all

subsection \<open>Evaluation on numerals\<close>

lemma replicate_numeral: "replicate (numeral v) a = a # replicate (numeral v - 1) a"
  by (simp add: numeral_eq_Suc)

lemma list_update_Cons_numeral: "(a # as)[numeral v := b] = a # as[numeral v - 1 := b]"
  by (simp add: numeral_eq_Suc)

lemma upt_0_numeral: "[0..<numeral v] = 0 # [1..<numeral v]"
  by (simp add: upt_rec[of 0])

lemma upt_1_numeral:
  "[Suc 0..<numeral v] = (if Suc 0 < numeral v then Suc 0 # [2..<numeral v] else [])"
  by (simp add: upt_rec[of "Suc 0"] numeral_2_eq_2)

lemmas list_eval = replicate_numeral list_update_Cons_numeral upto.simps[of 0]
  upto.simps[of 1] upt_0_numeral upt_1_numeral

lemmas frame_defs = test_cloud_def test_point_def test_config_def no_transform_def
  empty_output_def

lemmas filter_defs = filter_rings_def process_ring_def walk_step_def final_walk_def
  close_walk_def same_walk_def azimuth_diff_def float32_10 float32_150 isCluster_def
  initial_state_def
  emit_output_def emit_noise_def copy_point_def sizeof_PointXYZI_def zero_point_def
  ring2indices_of_def setUpPointCloudFormat_def resize_def data_size_def Let_def

lemmas image_defs = createBinaryImage_def frequency_image_of_def horizontal_resolution_def
  uint_cast_def
  horizontal_bins_def max_azimuth_def min_azimuth_def segment_bound_def in_roi_def
  analyze_ring_def inRange_def scan_segment.simps Let_def

subsection \<open>The ring partition\<close>

lemma ring_partition_length:
  "ring_partition ps k r2i = Inr r2i' \<Longrightarrow> length r2i' = length r2i"
  by (induction ps arbitrary: k r2i) (auto simp add: Let_def split: if_splits)

lemma ring_partition_nth:
  "ring_partition ps k r2i = Inr r2i' \<Longrightarrow> r < length r2i \<Longrightarrow>
   r2i' ! r = r2i ! r @ filter (\<lambda>i. unat (ring (ps ! (i - k))) = r) [k..<k + length ps]"
proof (induction ps arbitrary: k r2i)
  case Nil
  then show ?case by simp
next
  case (Cons p ps)
  let ?r2i1 = "r2i[unat (ring p) := r2i ! unat (ring p) @ [k]]"
  from Cons.prems have inb: "unat (ring p) < length r2i"
    and rec: "ring_partition ps (k + 1) ?r2i1 = Inr r2i'"
    by (auto simp add: Let_def split: if_splits)
  have ih: "r2i' ! r = ?r2i1 ! r
      @ filter (\<lambda>i. unat (ring (ps ! (i - (k + 1)))) = r) [k + 1..<k + 1 + length ps]"
    using Cons.IH[OF rec] Cons.prems(2) by simp
  have shift: "filter (\<lambda>i. unat (ring (ps ! (i - (k + 1)))) = r) [k + 1..<k + 1 + length ps]
      = filter (\<lambda>i. unat (ring ((p # ps) ! (i - k))) = r) [k + 1..<k + 1 + length ps]"
    by (rule filter_cong[OF refl]) (auto simp add: nth_Cons')
  have "k < k + length (p # ps)" by simp
  from upt_conv_Cons[OF this]
  have upt: "[k..<k + length (p # ps)] = k # [k + 1..<k + 1 + length ps]"
    by simp
  show ?case
    unfolding ih shift upt using Cons.prems(2) inb
    by (cases "unat (ring p) = r") simp_all
qed

lemma ring2indices_of_nth:
  assumes "ring2indices_of cfg input = Inr ring2indices"
  shows "length ring2indices = unat (max_rings_num cfg)"
    and "r < length ring2indices \<Longrightarrow>
      ring2indices ! r = filter (\<lambda>i. unat (ring (data input ! i)) = r) [0..<length (data input)]"
  using assms ring_partition_length[of "data input" 0 _ ring2indices]
    ring_partition_nth[of "data input" 0 _ ring2indices r]
  by (simp_all add: ring2indices_of_def)

lemma ring_partition_in_bound:
  "ring_partition ps k r2i = Inr r2i' \<Longrightarrow> p \<in> set ps \<Longrightarrow> unat (ring p) < length r2i"
proof (induction ps arbitrary: k r2i)
  case Nil
  then show ?case by simp
next
  case (Cons q ps)
  then show ?case
    by (fastforce simp add: Let_def split: if_splits)
qed

lemma ring2indices_unique:
  assumes "ring2indices_of cfg input = Inr ring2indices" "i < length (data input)"
  shows "\<exists>!r. r < length ring2indices \<and> i \<in> set (ring2indices ! r)"
proof -
  have inb: "unat (ring (data input ! i)) < length ring2indices"
    using ring_partition_in_bound[of "data input" 0 "replicate (unat (max_rings_num cfg)) []"
        ring2indices "data input ! i"] assms ring2indices_of_nth(1)[OF assms(1)]
    by (simp add: ring2indices_of_def)
  show ?thesis
  proof (rule ex1I[of _ "unat (ring (data input ! i))"])
    show "unat (ring (data input ! i)) < length ring2indices
        \<and> i \<in> set (ring2indices ! unat (ring (data input ! i)))"
      using inb assms by (simp add: ring2indices_of_nth(2)[OF assms(1)])
  next
    fix r assume "r < length ring2indices \<and> i \<in> set (ring2indices ! r)"
    then show "r = unat (ring (data input ! i))"
      by (auto simp add: ring2indices_of_nth(2)[OF assms(1)])
  qed
qed

subsection \<open>The walks of one ring\<close>

lemma fold_emit_output_frame:
  "walks (fold (\<lambda>i. emit_output (g i)) xs st) = walks st
   \<and> walk_first_idx (fold (\<lambda>i. emit_output (g i)) xs st) = walk_first_idx st
   \<and> walk_last_idx (fold (\<lambda>i. emit_output (g i)) xs st) = walk_last_idx st"
  by (induction xs arbitrary: st) (simp_all add: emit_output_def)

lemma fold_emit_noise_frame:
  "walks (fold (\<lambda>i. emit_noise (g i)) xs st) = walks st
   \<and> walk_first_idx (fold (\<lambda>i. emit_noise (g i)) xs st) = walk_first_idx st
   \<and> walk_last_idx (fold (\<lambda>i. emit_noise (g i)) xs st) = walk_last_idx st"
  by (induction xs arbitrary: st) (simp_all add: emit_noise_def)

lemma close_walk_frame:
  "walks (close_walk cfg ti input indices st)
     = walks st @ [(walk_first_idx st, walk_last_idx st,
         isCluster cfg input
           (indices ! nat (walk_first_idx st), indices ! nat (walk_last_idx st))
           (walk_last_idx st - walk_first_idx st + 1))]"
  "walk_first_idx (close_walk cfg ti input indices st) = walk_first_idx st"
  "walk_last_idx (close_walk cfg ti input indices st) = walk_last_idx st"
  by (simp_all add: close_walk_def Let_def fold_emit_output_frame fold_emit_noise_frame)

lemma covers_snoc:
  assumes "covers ws first" "0 \<le> first" "first \<le> l"
  shows "covers (ws @ [(first, l, kept)]) (l + 1)"
proof -
  have "[0..l] = [0..first - 1] @ [first..l]"
    using assms(2,3) upto_split2[of 0 "first - 1" l]
    by (cases "first = 0") simp_all
  then show ?thesis
    using assms by simp
qed

lemma walk_step_inv:
  assumes "walks st = pre @ ws" "covers ws (walk_first_idx st)"
    "0 \<le> walk_first_idx st" "walk_first_idx st \<le> int k"
  shows "\<exists>ws'. walks (walk_step cfg ti input indices k st) = pre @ ws'
     \<and> covers ws' (walk_first_idx (walk_step cfg ti input indices k st))
     \<and> 0 \<le> walk_first_idx (walk_step cfg ti input indices k st)
     \<and> walk_first_idx (walk_step cfg ti input indices k st) \<le> int k + 1
     \<and> walk_last_idx (walk_step cfg ti input indices k st) = int k"
proof (cases "same_walk cfg (data input ! (indices ! k)) (data input ! (indices ! (k + 1)))")
  case True
  then show ?thesis using assms by (simp add: walk_step_def Let_def)
next
  case False
  define kept where "kept = isCluster cfg input
      (indices ! nat (walk_first_idx st), indices ! nat (int k)) (int k - walk_first_idx st + 1)"
  have w: "walks (walk_step cfg ti input indices k st)
      = pre @ (ws @ [(walk_first_idx st, int k, kept)])"
    and f: "walk_first_idx (walk_step cfg ti input indices k st) = int k + 1"
    and l: "walk_last_idx (walk_step cfg ti input indices k st) = int k"
    using False assms(1) by (simp_all add: walk_step_def Let_def close_walk_frame kept_def)
  have "covers (ws @ [(walk_first_idx st, int k, kept)]) (int k + 1)"
    by (rule covers_snoc[OF assms(2,3,4)])
  then show ?thesis
    unfolding w f l by (intro exI[of _ "ws @ [(walk_first_idx st, int k, kept)]"]) simp
qed

lemma fold_walk_step_inv:
  assumes "walks st = pre" "walk_first_idx st = 0"
  shows "\<exists>ws. walks (fold (walk_step cfg ti input indices) [0..<k] st) = pre @ ws
     \<and> covers ws (walk_first_idx (fold (walk_step cfg ti input indices) [0..<k] st))
     \<and> 0 \<le> walk_first_idx (fold (walk_step cfg ti input indices) [0..<k] st)
     \<and> walk_first_idx (fold (walk_step cfg ti input indices) [0..<k] st) \<le> int k
     \<and> (0 < k \<longrightarrow>
          walk_last_idx (fold (walk_step cfg ti input indices) [0..<k] st) = int k - 1)"
proof (induction k)
  case 0
  then show ?case using assms by simp
next
  case (Suc k)
  then obtain ws where h: "walks (fold (walk_step cfg ti input indices) [0..<k] st) = pre @ ws"
    "covers ws (walk_first_idx (fold (walk_step cfg ti input indices) [0..<k] st))"
    "0 \<le> walk_first_idx (fold (walk_step cfg ti input indices) [0..<k] st)"
    "walk_first_idx (fold (walk_step cfg ti input indices) [0..<k] st) \<le> int k"
    by blast
  from walk_step_inv[OF h, of cfg ti input indices]
  show ?case by auto
qed

lemma process_ring_walks:
  "\<exists>ws. walks (process_ring cfg ti input indices st) = walks st @ ws
     \<and> covers ws (int (length indices) - 1)"
proof (cases "length indices < 2")
  case True
  then have "[0..int (length indices) - 1 - 1] = []" by simp
  then show ?thesis using True by (simp add: process_ring_def)
next
  case False
  define k where "k = length indices - 1"
  define st1 where "st1 = fold (walk_step cfg ti input indices) [0..<k]
      (st\<lparr>walk_first_idx := 0, walk_last_idx := - 1\<rparr>)"
  have kpos: "0 < k" "int (length indices) - 1 = int k"
    using False by (simp_all add: k_def)
  have pr: "process_ring cfg ti input indices st = final_walk cfg ti input indices st1"
    using False by (simp add: process_ring_def st1_def k_def)
  have "walks (st\<lparr>walk_first_idx := 0, walk_last_idx := - 1\<rparr>) = walks st"
    "walk_first_idx (st\<lparr>walk_first_idx := 0, walk_last_idx := - 1\<rparr>) = 0" by simp_all
  from fold_walk_step_inv[OF this, of cfg ti input indices k]
  obtain ws where h: "walks st1 = walks st @ ws" "covers ws (walk_first_idx st1)"
    "0 \<le> walk_first_idx st1" "walk_first_idx st1 \<le> int k"
    "walk_last_idx st1 = int k - 1"
    using kpos unfolding st1_def by blast
  show ?thesis
  proof (cases "walk_first_idx st1 > walk_last_idx st1")
    case True
    then have "walk_first_idx st1 = int k" using h by simp
    moreover have "final_walk cfg ti input indices st1 = st1"
      using True by (simp add: final_walk_def Let_def)
    ultimately show ?thesis
      unfolding pr kpos(2) using h(1,2) by (intro exI[of _ ws]) simp
  next
    case nf: False
    define kept where "kept = isCluster cfg input
        (indices ! nat (walk_first_idx st1), indices ! nat (walk_last_idx st1))
        (walk_last_idx st1 - walk_first_idx st1 + 1)"
    have w: "walks (final_walk cfg ti input indices st1)
        = walks st @ (ws @ [(walk_first_idx st1, int k - 1, kept)])"
      using nf h(1,5)
      by (simp add: final_walk_def Let_def fold_emit_output_frame fold_emit_noise_frame
          kept_def)
    have "walk_first_idx st1 \<le> int k - 1" using nf h(5) by simp
    from covers_snoc[OF h(2,3) this, of kept]
    have "covers (ws @ [(walk_first_idx st1, int k - 1, kept)]) (int k)" by simp
    then show ?thesis
      unfolding pr w kpos(2)
      by (intro exI[of _ "ws @ [(walk_first_idx st1, int k - 1, kept)]"]) simp
  qed
qed

text \<open>
  Each data index is in the list of exactly one ring, each list holds the indices of its
  ring in acquisition order, and the walks of a ring hold the positions from 0 to the
  length of the ring minus 2, in increasing order and each once.
\<close>

lemma ring_partition_and_walks:
  assumes "ring2indices_of cfg input = Inr ring2indices"
  shows "(\<forall>i < length (data input).
            \<exists>!r. r < length ring2indices \<and> i \<in> set (ring2indices ! r))
     \<and> (\<forall>r < length ring2indices.
            ring2indices ! r
              = filter (\<lambda>i. unat (ring (data input ! i)) = r) [0..<length (data input)])
     \<and> (\<forall>indices st. \<exists>ws.
            walks (process_ring cfg ti input indices st) = walks st @ ws
            \<and> concat (map (\<lambda>(first, last, kept). [first..last]) ws)
                = [0..int (length indices) - 2]
            \<and> list_all (\<lambda>(first, last, kept). first \<le> last) ws)"
proof -
  have "\<exists>ws. walks (process_ring cfg ti input indices st) = walks st @ ws
            \<and> concat (map (\<lambda>(first, last, kept). [first..last]) ws)
                = [0..int (length indices) - 2]
            \<and> list_all (\<lambda>(first, last, kept). first \<le> last) ws" for indices st
    using process_ring_walks[of cfg ti input indices st] by simp
  then show ?thesis
    using ring2indices_unique[OF assms] ring2indices_of_nth(2)[OF assms] by blast
qed

subsection \<open>Rejected walks and the size of the output\<close>

lemma fold_emit_noise_same:
  "noise_points_size (fold (\<lambda>i. emit_noise q) xs st)
     = noise_points_size st + length xs * sizeof_PointXYZI"
  by (induction xs arbitrary: st) (simp_all add: emit_noise_def)

lemma close_walk_rejected:
  assumes "\<not> isCluster cfg input
      (indices ! nat (walk_first_idx st), indices ! nat (walk_last_idx st))
      (walk_last_idx st - walk_first_idx st + 1)"
    and "publish_noise_points cfg"
  shows "noise_points_size (close_walk cfg ti input indices st)
     = noise_points_size st
       + nat (walk_last_idx st - walk_first_idx st + 1) * sizeof_PointXYZI"
  using assms by (simp add: close_walk_def Let_def fold_emit_noise_same)

lemma setUpPointCloudFormat_size:
  assumes "0 < point_step formatted_points"
  shows "length (data (setUpPointCloudFormat input formatted_points points_size)) = width input"
    and "data_size (setUpPointCloudFormat input formatted_points points_size)
         = point_step formatted_points * width input"
    and "width (setUpPointCloudFormat input formatted_points points_size) = width input"
  using assms by (simp_all add: setUpPointCloudFormat_def resize_def data_size_def Let_def)

subsection \<open>The faults of the visibility pass\<close>

lemma scan_segment_fault:
  "scan_segment cfg resolution i single_ring condition k n = Inl e \<Longrightarrow>
   e = UndefinedBehaviour \<and> (\<exists>j. segment_bound cfg resolution j = None)"
proof (induction cfg resolution i single_ring condition k n rule: scan_segment.induct)
  case (1 cfg resolution i single_ring condition k n)
  show ?case
  proof (cases "condition \<and> k < length single_ring - 1")
    case False
    have "scan_segment cfg resolution i single_ring condition k n = Inr (k, n)"
      by (subst scan_segment.simps) (rule if_not_P[OF False])
    then show ?thesis using "1.prems" by simp
  next
    case True
    have unfold: "scan_segment cfg resolution i single_ring condition k n =
        (case segment_bound cfg resolution i of
           None \<Rightarrow> Inl UndefinedBehaviour
         | Some b \<Rightarrow>
             (let p = single_ring ! k;
                  condition' = ((if azimuth p < 0 then 0 else azimuth p) < real (unat b))
              in scan_segment cfg resolution i single_ring condition' (k + 1)
                   (if condition' \<and> in_roi cfg p then n + 1 else n)))"
      by (subst scan_segment.simps) (rule if_P[OF True])
    show ?thesis
    proof (cases "segment_bound cfg resolution i")
      case None
      then show ?thesis using "1.prems" unfold by auto
    next
      case (Some b)
      then show ?thesis
        using "1.prems" unfold "1.IH"[OF True Some refl refl]
        by (simp add: Let_def)
    qed
  qed
qed

lemma analyze_segments_fault:
  "analyze_segments cfg resolution single_ring sectors k row = Inl e \<Longrightarrow>
   e = UndefinedBehaviour \<and> (\<exists>j. segment_bound cfg resolution j = None)"
proof (induction sectors arbitrary: k row)
  case Nil
  then show ?case by simp
next
  case (Cons i sectors)
  then show ?case
    by (auto split: sum.splits dest: scan_segment_fault)
qed

lemma analyze_rings_fault:
  "analyze_rings cfg resolution rings frequency_image = Inl e \<Longrightarrow>
   e = UndefinedBehaviour \<and> (\<exists>j. segment_bound cfg resolution j = None)"
proof (induction rings arbitrary: frequency_image)
  case Nil
  then show ?case by simp
next
  case (Cons single_ring rings)
  then show ?case
    by (auto simp add: analyze_ring_def Let_def split: if_splits sum.splits
        dest: analyze_segments_fault)
qed

lemma split_rings_fault: "split_rings ps rings = Inl e \<Longrightarrow> e = OutOfRange"
  by (induction ps arbitrary: rings) (auto simp add: Let_def split: if_splits)

lemma createBinaryImage_fault:
  assumes "createBinaryImage cfg input = Inl e"
  shows "e = OutOfRange \<or> e = UndefinedBehaviour"
  using assms
  by (auto simp add: createBinaryImage_def split: option.splits sum.splits
      dest: split_rings_fault analyze_rings_fault)

lemma createBinaryImage_undefined:
  assumes "createBinaryImage cfg input = Inl UndefinedBehaviour"
  shows "horizontal_resolution cfg = None
    \<or> (\<exists>resolution j. horizontal_resolution cfg = Some resolution
          \<and> segment_bound cfg resolution j = None)"
  using assms
  by (auto simp add: createBinaryImage_def split: option.splits sum.splits
      dest: split_rings_fault analyze_rings_fault)

lemma full_window_resolution:
  assumes "roi_mode_map cfg (roi_mode cfg) \<noteq> 2"
  shows "horizontal_resolution cfg = Some 1000"
    and "segment_bound cfg 1000 i = Some ((i + 1) * 1000)"
  using assms
  by (simp_all add: horizontal_resolution_def segment_bound_def uint_cast_def
      horizontal_bins_def max_azimuth_def min_azimuth_def)

subsection \<open>The visibility value and the size of the histogram image\<close>

lemma countNonZero_le: "countNonZero img \<le> length (concat img)"
  by (simp add: countNonZero_def)

lemma length_concat_rows:
  "\<forall>row \<in> set img. length row = n \<Longrightarrow> length (concat img) = length img * n"
  by (induction img) simp_all

lemma rounded_visibility:
  assumes "n \<le> d" "0 < d"
  shows "0 \<le> float32 (float64 (1 - float32 (float32 (real n) / float32 (real d))))"
    and "float32 (float64 (1 - float32 (float32 (real n) / float32 (real d)))) \<le> 1"
    and "n = d \<Longrightarrow> float32 (float64 (1 - float32 (float32 (real n) / float32 (real d)))) = 0"
    and "n = 0 \<Longrightarrow> float32 (float64 (1 - float32 (float32 (real n) / float32 (real d)))) = 1"
proof -
  define a where "a = float32 (real n)"
  define b where "b = float32 (real d)"
  define c where "c = float32 (a / b)"
  have a0: "0 \<le> a"
    using float32_mono[of 0 "real n"] by (simp add: a_def float32_0)
  have ab: "a \<le> b"
    unfolding a_def b_def by (rule float32_mono) (use assms(1) in simp_all)
  have b1: "1 \<le> b"
    using float32_mono[of 1 "real d"] assms(2) by (simp add: b_def float32_1)
  have x: "0 \<le> a / b" "a / b \<le> 1"
    using a0 ab b1 by simp_all
  have c0: "0 \<le> c"
    using float32_mono[of 0 "a / b"] x(1) by (simp add: c_def float32_0)
  have c1: "c \<le> 1"
    using float32_mono[OF x] by (simp add: c_def float32_1)
  have y0: "0 \<le> float64 (1 - c)"
    using float64_mono[of 0 "1 - c"] c1 by (simp add: float64_0)
  have y1: "float64 (1 - c) \<le> 1"
    using float64_mono[of "1 - c" 1] c0 c1 by (simp add: float64_1)
  show "0 \<le> float32 (float64 (1 - float32 (float32 (real n) / float32 (real d))))"
    using float32_mono[of 0 "float64 (1 - c)"] y0
    by (simp add: float32_0 a_def b_def c_def)
  show "float32 (float64 (1 - float32 (float32 (real n) / float32 (real d)))) \<le> 1"
    using float32_mono[OF y0 y1] by (simp add: float32_1 a_def b_def c_def)
  show "float32 (float64 (1 - float32 (float32 (real n) / float32 (real d)))) = 0" if "n = d"
  proof -
    have "a / b = 1" using that b1 by (simp add: a_def b_def)
    then show ?thesis
      by (simp add: float32_1 float32_0 float64_0 flip: a_def b_def)
  qed
  show "float32 (float64 (1 - float32 (float32 (real n) / float32 (real d)))) = 1" if "n = 0"
    using that by (simp add: float32_0 float32_1 float64_1)
qed

lemma visibility_value:
  assumes "length img = unat vbins" "\<forall>row \<in> set img. length row = unat hbins"
    "0 < unat vbins * unat hbins" "unat vbins * unat hbins < 2 ^ 32"
  shows "visibility img vbins hbins
       = Some (float32 (float64 (1 - float32 (float32 (real (countNonZero img))
                 / float32 (real (unat vbins * unat hbins))))))"
    and "countNonZero img \<le> unat vbins * unat hbins"
    and "length (concat img) = unat vbins * unat hbins"
proof -
  have m: "unat (vbins * hbins) = unat vbins * unat hbins"
    using assms(4) by (simp add: unat_mult_lem[THEN iffD1])
  then have nz: "vbins * hbins \<noteq> 0"
    using assms(3) by (metis less_numeral_extra(3) unat_0)
  show "visibility img vbins hbins
       = Some (float32 (float64 (1 - float32 (float32 (real (countNonZero img))
                 / float32 (real (unat vbins * unat hbins))))))"
    using nz by (simp add: visibility_def calculateFilledPixels_def Let_def m)
  show l: "length (concat img) = unat vbins * unat hbins"
    using length_concat_rows[OF assms(2)] assms(1) by simp
  show "countNonZero img \<le> unat vbins * unat hbins"
    using countNonZero_le[of img] l by simp
qed

lemma visibility_range:
  assumes "length img = unat vbins" "\<forall>row \<in> set img. length row = unat hbins"
    "0 < unat vbins * unat hbins" "unat vbins * unat hbins < 2 ^ 32"
  shows "\<exists>v. visibility img vbins hbins = Some v \<and> 0 \<le> v \<and> v \<le> 1"
  using visibility_value(1)[OF assms]
    rounded_visibility(1,2)[OF visibility_value(2)[OF assms] assms(3)]
  by simp

lemma analyze_segments_row:
  "analyze_segments cfg resolution single_ring sectors k row = Inr row' \<Longrightarrow>
   length row' = length row \<and> (\<forall>j. j \<notin> set sectors \<longrightarrow> row' ! j = row ! j)"
proof (induction sectors arbitrary: k row)
  case Nil
  then show ?case by simp
next
  case (Cons i sectors)
  from Cons.prems obtain k' n where
    rec: "analyze_segments cfg resolution single_ring sectors k'
        (row[i := word_of_int (min n 255)]) = Inr row'"
    by (auto split: sum.splits)
  from Cons.IH[OF rec]
  have l: "length row' = length (row[i := word_of_int (min n 255)])"
    and u: "\<And>j. j \<notin> set sectors \<Longrightarrow> row' ! j = row[i := word_of_int (min n 255)] ! j"
    by simp_all
  show ?case
  proof (intro conjI allI impI)
    show "length row' = length row" using l by simp
  next
    fix j assume "j \<notin> set (i # sectors)"
    then have "j \<notin> set sectors" "i \<noteq> j" by auto
    then show "row' ! j = row ! j" using u[of j] by simp
  qed
qed

lemma analyze_ring_last_sector:
  assumes "analyze_ring cfg resolution single_ring row = Inr row'"
  shows "length row' = length row" and "row' ! 35 = row ! 35"
  using analyze_segments_row[OF assms[unfolded analyze_ring_def]]
  by (simp_all add: horizontal_bins_def)

lemma analyze_rings_size:
  "analyze_rings cfg resolution rings frequency_image = Inr frequency_image' \<Longrightarrow>
   \<forall>row \<in> set frequency_image. length row = n \<Longrightarrow>
   length frequency_image' = length frequency_image
   \<and> (\<forall>row \<in> set frequency_image'. length row = n)"
proof (induction rings arbitrary: frequency_image)
  case Nil
  then show ?case by simp
next
  case (Cons single_ring rings)
  show ?case
  proof (cases "single_ring = []")
    case True
    then show ?thesis using Cons by simp
  next
    case False
    define ring_id where "ring_id = unat (ring (hd single_ring))"
    from Cons.prems(1) False obtain row where
      row: "analyze_ring cfg resolution single_ring (frequency_image ! ring_id) = Inr row"
      and rec: "analyze_rings cfg resolution rings (frequency_image[ring_id := row])
          = Inr frequency_image'"
      by (auto simp add: Let_def ring_id_def split: sum.splits)
    have "\<forall>r \<in> set (frequency_image[ring_id := row]). length r = n"
    proof
      fix r assume "r \<in> set (frequency_image[ring_id := row])"
      then have "r = row \<and> ring_id < length frequency_image \<or> r \<in> set frequency_image"
        using set_update_subset_insert[of frequency_image ring_id row]
        by (cases "ring_id < length frequency_image") (auto simp add: list_update_beyond)
      then show "length r = n"
        using analyze_ring_last_sector(1)[OF row] Cons.prems(2) by auto
    qed
    from Cons.IH[OF rec this] show ?thesis by simp
  qed
qed

lemma createBinaryImage_size:
  assumes "createBinaryImage cfg input = Inr img"
  shows "length img = vertical_bins cfg" and "\<forall>row \<in> set img. length row = 36"
proof -
  from assms obtain resolution rings frequency_image where
    a: "analyze_rings cfg resolution rings
          (replicate (vertical_bins cfg) (replicate (unat horizontal_bins) 0))
        = Inr frequency_image"
    and i: "img = inRange frequency_image (noise_threshold cfg) 255"
    by (auto simp add: createBinaryImage_def split: option.splits sum.splits)
  have "\<forall>row \<in> set (replicate (vertical_bins cfg) (replicate (unat horizontal_bins) (0 :: 8 word))).
      length row = 36"
    by (simp add: horizontal_bins_def)
  from analyze_rings_size[OF a this]
  show "length img = vertical_bins cfg" and "\<forall>row \<in> set img. length row = 36"
    by (simp_all add: i inRange_def)
qed

lemma createBinaryImage_frequency_image:
  "createBinaryImage cfg input =
     (case frequency_image_of cfg input of
        Inl e \<Rightarrow> Inl e
      | Inr frequency_image \<Rightarrow> Inr (inRange frequency_image (noise_threshold cfg) 255))"
  by (simp add: createBinaryImage_def frequency_image_of_def split: option.splits sum.splits)

lemma uint8_le_255: "uint (c :: 8 word) \<le> 255"
  using uint_bounded[of c] by simp

lemma countNonZero_inRange:
  "countNonZero (inRange hist lowerb 255)
     = length (filter (\<lambda>c. lowerb \<le> uint c) (concat hist))"
proof (induction hist)
  case Nil
  then show ?case by (simp add: countNonZero_def inRange_def)
next
  case (Cons row hist)
  have "length (filter (\<lambda>c. c \<noteq> 0)
            (map (\<lambda>c. if lowerb \<le> uint c \<and> uint c \<le> 255 then 255 else (0 :: 8 word)) row))
      = length (filter (\<lambda>c. lowerb \<le> uint c) row)"
    by (induction row) (simp_all add: uint8_le_255)
  then show ?case
    using Cons by (simp add: countNonZero_def inRange_def)
qed

lemma concat_inRange_length: "length (concat (inRange hist lowerb upperb)) = length (concat hist)"
  by (induction hist) (simp_all add: inRange_def)

lemma faster_filter_visibility_range:
  assumes "Visibility v \<in> set (fst (faster_filter cfg ti input output))"
    "0 < vertical_bins cfg" "vertical_bins cfg * 36 < 2 ^ 32"
  shows "\<exists>r. v = Some r \<and> 0 \<le> r \<and> r \<le> 1"
proof -
  from assms(1) obtain img where
    img: "createBinaryImage cfg input = Inr img"
    and v: "v = visibility img (of_nat (vertical_bins cfg)) 36"
    by (auto simp add: faster_filter_def Let_def split: sum.splits if_splits)
  have u: "unat (of_nat (vertical_bins cfg) :: 32 word) = vertical_bins cfg"
    using assms(3) by (simp add: unat_of_nat)
  have "\<exists>r. visibility img (of_nat (vertical_bins cfg)) 36 = Some r \<and> 0 \<le> r \<and> r \<le> 1"
    by (rule visibility_range)
      (use createBinaryImage_size[OF img] assms(2,3) u in simp_all)
  then show ?thesis using v by simp
qed

subsection \<open>The properties of the specification\<close>

text \<open>
  C1. A single ring of five points in which every consecutive pair continues the walk, with
  at least \<^verbatim>\<open>num_points_threshold\<close> points, should give one kept walk of all five points
  and five accepted points. On the frame \<open>five_points\<close> the filter closes one walk, from
  position 0 to position 3: the last position of a ring is only ever the next point of a
  pair and enters no walk. With a threshold of 4 the walk is kept and four points are
  written (the fifth slot of the output is the zero point of the resized buffer); with a
  threshold of 5 the walk has size 4 and is rejected, and nothing is written.
\<close>

theorem five_point_ring_loses_last_point:
  "same_walk (test_config False 4 ''Fixed_xyz_ROI'') (data five_points ! 0) (data five_points ! 1)
   \<and> same_walk (test_config False 4 ''Fixed_xyz_ROI'') (data five_points ! 1) (data five_points ! 2)
   \<and> same_walk (test_config False 4 ''Fixed_xyz_ROI'') (data five_points ! 2) (data five_points ! 3)
   \<and> same_walk (test_config False 4 ''Fixed_xyz_ROI'') (data five_points ! 3) (data five_points ! 4)
   \<and> ring2indices_of (test_config False 4 ''Fixed_xyz_ROI'') five_points = Inr [[0, 1, 2, 3, 4]]
   \<and> walks (filter_rings (test_config False 4 ''Fixed_xyz_ROI'') no_transform five_points
        [[0, 1, 2, 3, 4]]
          (initial_state (test_config False 4 ''Fixed_xyz_ROI'') five_points empty_output))
      = [(0, 3, True)]
   \<and> output_size (filter_rings (test_config False 4 ''Fixed_xyz_ROI'') no_transform five_points
        [[0, 1, 2, 3, 4]]
          (initial_state (test_config False 4 ''Fixed_xyz_ROI'') five_points empty_output))
      = 4 * sizeof_PointXYZI
   \<and> faster_filter (test_config False 4 ''Fixed_xyz_ROI'') no_transform five_points empty_output
      = ([], Inr \<lparr>point_step = 16,
            data = [\<lparr>x = 10, y = 0, z = 0, intensity = 1\<rparr>,
                    \<lparr>x = 10, y = 0, z = 0, intensity = 2\<rparr>,
                    \<lparr>x = 10, y = 0, z = 0, intensity = 3\<rparr>,
                    \<lparr>x = 10, y = 0, z = 0, intensity = 4\<rparr>,
                    \<lparr>x = 0, y = 0, z = 0, intensity = 0\<rparr>],
            width = 5, height = 1, is_bigendian = False, is_dense = True\<rparr>)
   \<and> walks (filter_rings (test_config False 5 ''Fixed_xyz_ROI'') no_transform five_points
        [[0, 1, 2, 3, 4]]
          (initial_state (test_config False 5 ''Fixed_xyz_ROI'') five_points empty_output))
      = [(0, 3, False)]
   \<and> output_size (filter_rings (test_config False 5 ''Fixed_xyz_ROI'') no_transform five_points
        [[0, 1, 2, 3, 4]]
          (initial_state (test_config False 5 ''Fixed_xyz_ROI'') five_points empty_output))
      = 0"
  by (simp add: faster_filter_def five_points_def frame_defs filter_defs list_eval)

text \<open>
  C2. A rejected walk should add one point, its first, to the noise buffer; the ring of
  three points whose last pair has an azimuth difference of 150 should give the walks
  [0,1] and [2,2] and two noise points, one per walk. On the frame \<open>three_points\<close>, with
  a threshold of 4 and noise output enabled, the filter closes the single walk from 0 to
  1, rejects it, and writes the first point of that walk twice, once per member of the
  walk; position 2 enters no walk.
\<close>

theorem three_point_ring_noise_copies:
  "same_walk (test_config True 4 ''Fixed_xyz_ROI'') (data three_points ! 0) (data three_points ! 1)
   \<and> azimuth_diff (azimuth (data three_points ! 1)) (azimuth (data three_points ! 2)) = 150
   \<and> ring2indices_of (test_config True 4 ''Fixed_xyz_ROI'') three_points = Inr [[0, 1, 2]]
   \<and> filter_rings (test_config True 4 ''Fixed_xyz_ROI'') no_transform three_points
        [[0, 1, 2]]
        (initial_state (test_config True 4 ''Fixed_xyz_ROI'') three_points empty_output)
      = \<lparr>output_data = [zero_point, zero_point, zero_point], output_size = 0,
          noise_data = [\<lparr>x = 10, y = 0, z = 0, intensity = 1\<rparr>,
                        \<lparr>x = 10, y = 0, z = 0, intensity = 1\<rparr>, zero_point],
          noise_points_size = 2 * sizeof_PointXYZI,
          walk_first_idx = 2, walk_last_idx = 1, walks = [(0, 1, False)]\<rparr>"
  by (simp add: three_points_def frame_defs filter_defs list_eval)

text \<open>
  C3. Every position of a ring should belong to exactly one walk. Every data index is in
  the list of exactly one ring (\<open>ring_partition_and_walks\<close>), but the walks of a ring
  hold only the positions up to the length of the ring minus 2: on the frame
  \<open>three_points\<close> the ring is [0, 1, 2] and the only walk is [0, 1], and on the frame
  \<open>five_points\<close> the ring is [0, 1, 2, 3, 4] and the only walk is [0, 3]. The last
  position of a ring is in no walk.
\<close>

theorem last_position_of_ring_in_no_walk:
  "ring2indices_of (test_config True 4 ''No_ROI'') three_points = Inr [[0, 1, 2]]
   \<and> walks (process_ring (test_config True 4 ''No_ROI'') no_transform three_points [0, 1, 2]
         (initial_state (test_config True 4 ''No_ROI'') three_points empty_output))
       = [(0, 1, False)]
   \<and> ring2indices_of (test_config True 4 ''No_ROI'') five_points = Inr [[0, 1, 2, 3, 4]]
   \<and> walks (process_ring (test_config True 4 ''No_ROI'') no_transform five_points
         [0, 1, 2, 3, 4]
         (initial_state (test_config True 4 ''No_ROI'') five_points empty_output))
       = [(0, 3, True)]"
  by (simp add: three_points_def five_points_def frame_defs filter_defs list_eval)

text \<open>
  C4. The output buffer should be trimmed to the bytes written. On the frame
  \<open>three_points\<close>, with a threshold of 4, nothing is written (the output size is 0), and
  the output has 48 bytes and a width of 3: \<^verbatim>\<open>setUpPointCloudFormat\<close> resizes the
  buffer to the bytes written and then to the point step times the width of the input.
\<close>

theorem output_buffer_not_trimmed:
  "output_size (filter_rings (test_config False 4 ''Fixed_xyz_ROI'') no_transform three_points
        [[0, 1, 2]]
        (initial_state (test_config False 4 ''Fixed_xyz_ROI'') three_points empty_output)) = 0
   \<and> faster_filter (test_config False 4 ''Fixed_xyz_ROI'') no_transform three_points empty_output
      = ([], Inr \<lparr>point_step = 16, data = [zero_point, zero_point, zero_point],
            width = 3, height = 1, is_bigendian = False, is_dense = True\<rparr>)
   \<and> data_size (setUpPointCloudFormat three_points
          \<lparr>point_step = 16, data = [zero_point, zero_point, zero_point], width = 0, height = 0,
           is_bigendian = False, is_dense = False\<rparr> 0) = 48"
  by (simp add: faster_filter_def three_points_def frame_defs filter_defs list_eval)

text \<open>
  C5, as stated, fails: with the azimuth window of the azimuth-distance mode reduced to a
  point (minimum and maximum at 135 degrees) the horizontal resolution is 0, and the
  visibility pass raises no configuration error. For a frame whose ring has a single point
  it returns the image; for the frame \<open>three_points\<close> it reaches the division by the
  resolution.
\<close>

theorem degenerate_window_not_rejected:
  "horizontal_resolution ((test_config True 4 ''Fixed_azimuth_ROI'')\<lparr>max_azimuth_deg := 135\<rparr>)
     = Some 0
   \<and> createBinaryImage ((test_config True 4 ''Fixed_azimuth_ROI'')\<lparr>max_azimuth_deg := 135\<rparr>)
       (test_cloud [test_point 13500 1 0]) = Inr [replicate 36 0]
   \<and> createBinaryImage ((test_config True 4 ''Fixed_azimuth_ROI'')\<lparr>max_azimuth_deg := 135\<rparr>)
       three_points = Inl UndefinedBehaviour"
  by (simp add: three_points_def image_defs frame_defs list_eval)

text \<open>
  C5, amended. The visibility pass never fails with a configuration error: it does not
  check the horizontal resolution. The number of horizontal bins is the constant 36; in
  every mode but the azimuth-distance mode the resolution is 36000 / 36 = 1000, every
  segment bound is defined, and the pass does not reach a division by zero.
\<close>

theorem resolution_is_not_checked:
  "createBinaryImage cfg input \<noteq> Inl ConfigurationError
   \<and> (roi_mode_map cfg (roi_mode cfg) \<noteq> 2 \<longrightarrow>
        horizontal_resolution cfg = Some 1000
        \<and> (\<forall>i. segment_bound cfg 1000 i = Some ((i + 1) * 1000))
        \<and> createBinaryImage cfg input \<noteq> Inl UndefinedBehaviour)"
proof -
  have "createBinaryImage cfg input \<noteq> Inl ConfigurationError"
    using createBinaryImage_fault[of cfg input ConfigurationError] by auto
  moreover have "createBinaryImage cfg input \<noteq> Inl UndefinedBehaviour"
    if "roi_mode_map cfg (roi_mode cfg) \<noteq> 2"
    using createBinaryImage_undefined[of cfg input] full_window_resolution[OF that]
    by auto
  ultimately show ?thesis
    using full_window_resolution by blast
qed

theorem resolution_is_not_checked_witness:
  "horizontal_resolution (test_config True 4 ''No_ROI'') = Some 1000
   \<and> segment_bound (test_config True 4 ''No_ROI'') 1000 35 = Some 36000
   \<and> createBinaryImage (test_config True 4 ''No_ROI'') three_points \<noteq> Inl UndefinedBehaviour
   \<and> createBinaryImage (test_config True 4 ''No_ROI'') three_points \<noteq> Inl ConfigurationError"
proof -
  have h: "roi_mode_map (test_config True 4 ''No_ROI'') (roi_mode (test_config True 4 ''No_ROI''))
      \<noteq> 2"
    by (simp add: test_config_def)
  from resolution_is_not_checked[of "test_config True 4 ''No_ROI''" three_points] h
  have "horizontal_resolution (test_config True 4 ''No_ROI'') = Some 1000"
    and "segment_bound (test_config True 4 ''No_ROI'') 1000 35 = Some ((35 + 1) * 1000)"
    and "createBinaryImage (test_config True 4 ''No_ROI'') three_points \<noteq> Inl UndefinedBehaviour"
    and "createBinaryImage (test_config True 4 ''No_ROI'') three_points \<noteq> Inl ConfigurationError"
    by blast+
  then show ?thesis by simp
qed

text \<open>
  C6, as stated, fails. A cell is filled when its count lies between the noise threshold
  and 255, both included, not when it is above the threshold: on the frame
  \<open>three_points\<close>, with a threshold of 2, the histogram has one cell with a count of 2
  and no count above 2, and the visibility published is the single-precision value
  next to 35 / 36, not 1. With a threshold of
  0 a histogram of zeros has every cell filled and the visibility is 0. With no vertical
  bins and no points the quotient has a zero divisor and the visibility is not a number.
\<close>

theorem visibility_threshold_is_inclusive:
  "noise_threshold (test_config True 4 ''No_ROI'') = 2
   \<and> frequency_image_of (test_config True 4 ''No_ROI'') three_points
       = Inr [2 # replicate 35 0]
   \<and> createBinaryImage (test_config True 4 ''No_ROI'') three_points
       = Inr [255 # replicate 35 0]
   \<and> fst (faster_filter (test_config True 4 ''No_ROI'') no_transform three_points
         empty_output) ! 2 = Visibility (Some (8155591 / 8388608))
   \<and> frequency_image_of ((test_config True 4 ''No_ROI'')\<lparr>noise_threshold := 0\<rparr>)
         (test_cloud [test_point 0 1 0]) = Inr [replicate 36 0]
   \<and> createBinaryImage ((test_config True 4 ''No_ROI'')\<lparr>noise_threshold := 0\<rparr>)
         (test_cloud [test_point 0 1 0]) = Inr [replicate 36 255]
   \<and> visibility [replicate 36 255] 1 36 = Some 0
   \<and> createBinaryImage ((test_config True 4 ''No_ROI'')\<lparr>vertical_bins := 0\<rparr>)
         (test_cloud []) = Inr []
   \<and> visibility [] 0 36 = None"
proof -
  have a: "float32 36 = 36"
    using float32_eval[of 5 36] by (simp add: round_ties_even_def)
  have b: "float32 (1 / 36) = 14913081 / 536870912"
    using float32_eval[of "- 6" "1 / 36"] by (simp add: round_ties_even_def)
  have c: "float64 (521957831 / 536870912) = 521957831 / 536870912"
    using float64_eval[of "- 1" "521957831 / 536870912"] by (simp add: round_ties_even_def)
  have d: "float32 (521957831 / 536870912) = 8155591 / 8388608"
    using float32_eval[of "- 1" "521957831 / 536870912"] by (simp add: round_ties_even_def)
  show ?thesis
    by (simp add: faster_filter_def frequency_image_of_def three_points_def image_defs
        frame_defs filter_defs list_eval visibility_def calculateFilledPixels_def
        countNonZero_def a b c d float32_0 float32_1 float64_0 float64_1)
qed

text \<open>
  C6, amended. With a positive number of vertical bins whose product with the 36
  horizontal bins fits 32 bits, the visibility that a frame publishes is a number in
  [0, 1]; it is 1 minus the number of filled cells over the number of cells, computed in
  floating point (a single-precision quotient, a double-precision difference, a
  single-precision result), where a cell of the histogram is filled when its count is at
  least the noise threshold; it is 0 when every count is at least the threshold and 1
  when every count is below it.
\<close>

theorem visibility_of_histogram:
  assumes "frequency_image_of cfg input = Inr hist"
    "0 < vertical_bins cfg" "vertical_bins cfg * 36 < 2 ^ 32"
  shows "\<exists>v. createBinaryImage cfg input = Inr (inRange hist (noise_threshold cfg) 255)
     \<and> visibility (inRange hist (noise_threshold cfg) 255) (of_nat (vertical_bins cfg)) 36
         = Some v
     \<and> (\<forall>v'. Visibility v' \<in> set (fst (faster_filter cfg ti input output)) \<longrightarrow> v' = Some v)
     \<and> 0 \<le> v \<and> v \<le> 1
     \<and> v = float32 (float64 (1 - float32
           (float32 (real (length (filter (\<lambda>c. noise_threshold cfg \<le> uint c) (concat hist))))
            / float32 (real (vertical_bins cfg * 36)))))
     \<and> ((\<forall>row \<in> set hist. \<forall>c \<in> set row. noise_threshold cfg \<le> uint c) \<longrightarrow> v = 0)
     \<and> ((\<forall>row \<in> set hist. \<forall>c \<in> set row. uint c < noise_threshold cfg) \<longrightarrow> v = 1)"
proof -
  define img where "img = inRange hist (noise_threshold cfg) 255"
  define vbins :: "32 word" where "vbins = of_nat (vertical_bins cfg)"
  define n where "n = length (filter (\<lambda>c. noise_threshold cfg \<le> uint c) (concat hist))"
  define d where "d = vertical_bins cfg * 36"
  define v where "v = float32 (float64 (1 - float32 (float32 (real n) / float32 (real d))))"
  have cb: "createBinaryImage cfg input = Inr img"
    using assms(1) by (simp add: createBinaryImage_frequency_image img_def)
  have u: "unat vbins = vertical_bins cfg"
    using assms(3) by (simp add: vbins_def unat_of_nat)
  have h1: "length img = unat vbins"
    using createBinaryImage_size(1)[OF cb] u by simp
  have h2: "\<forall>row \<in> set img. length row = unat (36 :: 32 word)"
    using createBinaryImage_size(2)[OF cb] by simp
  have h3: "0 < unat vbins * unat (36 :: 32 word)"
    using assms(2) u by simp
  have h4: "unat vbins * unat (36 :: 32 word) < 2 ^ 32"
    using assms(3) u by simp
  have cnt: "countNonZero img = n"
    by (simp add: img_def n_def countNonZero_inRange)
  have dd: "unat vbins * unat (36 :: 32 word) = d"
    using u by (simp add: d_def)
  have vis: "visibility img vbins 36 = Some v"
    using visibility_value(1)[OF h1 h2 h3 h4] unfolding cnt dd v_def .
  have nd: "n \<le> d"
    using visibility_value(2)[OF h1 h2 h3 h4] unfolding cnt dd .
  have len: "length (concat hist) = d"
    using visibility_value(3)[OF h1 h2 h3 h4] unfolding dd
    by (simp add: img_def concat_inRange_length)
  have dpos: "0 < d" using assms(2) by (simp add: d_def)
  have full: "v = 0" if "\<forall>row \<in> set hist. \<forall>c \<in> set row. noise_threshold cfg \<le> uint c"
  proof -
    have "filter (\<lambda>c. noise_threshold cfg \<le> uint c) (concat hist) = concat hist"
      using that by (auto intro: filter_True)
    then have "n = d" using len by (simp add: n_def)
    then show ?thesis unfolding v_def by (rule rounded_visibility(3)[OF nd dpos])
  qed
  have none: "v = 1" if "\<forall>row \<in> set hist. \<forall>c \<in> set row. uint c < noise_threshold cfg"
  proof -
    have "\<forall>c \<in> set (concat hist). \<not> noise_threshold cfg \<le> uint c"
      using that by fastforce
    then have "filter (\<lambda>c. noise_threshold cfg \<le> uint c) (concat hist) = []"
      by (simp add: filter_empty_conv)
    then have "n = 0" by (simp add: n_def)
    then show ?thesis unfolding v_def by (rule rounded_visibility(4)[OF nd dpos])
  qed
  have pub: "v' = Some v" if "Visibility v' \<in> set (fst (faster_filter cfg ti input output))" for v'
    using that cb vis
    by (auto simp add: faster_filter_def Let_def vbins_def split: sum.splits if_splits)
  have "createBinaryImage cfg input = Inr img \<and> visibility img vbins 36 = Some v
     \<and> (\<forall>v'. Visibility v' \<in> set (fst (faster_filter cfg ti input output)) \<longrightarrow> v' = Some v)
     \<and> 0 \<le> v \<and> v \<le> 1
     \<and> v = float32 (float64 (1 - float32 (float32 (real n) / float32 (real d))))
     \<and> ((\<forall>row \<in> set hist. \<forall>c \<in> set row. noise_threshold cfg \<le> uint c) \<longrightarrow> v = 0)
     \<and> ((\<forall>row \<in> set hist. \<forall>c \<in> set row. uint c < noise_threshold cfg) \<longrightarrow> v = 1)"
  proof (intro conjI allI impI)
    show "createBinaryImage cfg input = Inr img" by (rule cb)
    show "visibility img vbins 36 = Some v" by (rule vis)
    show "0 \<le> v" unfolding v_def by (rule rounded_visibility(1)[OF nd dpos])
    show "v \<le> 1" unfolding v_def by (rule rounded_visibility(2)[OF nd dpos])
    show "v = float32 (float64 (1 - float32 (float32 (real n) / float32 (real d))))"
      by (rule v_def)
    show "v' = Some v" if "Visibility v' \<in> set (fst (faster_filter cfg ti input output))"
      for v' by (rule pub[OF that])
    show "v = 0" if "\<forall>row \<in> set hist. \<forall>c \<in> set row. noise_threshold cfg \<le> uint c"
      by (rule full[OF that])
    show "v = 1" if "\<forall>row \<in> set hist. \<forall>c \<in> set row. uint c < noise_threshold cfg"
      by (rule none[OF that])
  qed
  then show ?thesis
    unfolding img_def vbins_def n_def d_def by (rule exI)
qed

theorem visibility_of_histogram_witness:
  "\<exists>v. createBinaryImage (test_config True 4 ''No_ROI'') three_points
           = Inr (inRange [2 # replicate 35 0] (noise_threshold (test_config True 4 ''No_ROI'')) 255)
     \<and> visibility
           (inRange [2 # replicate 35 0] (noise_threshold (test_config True 4 ''No_ROI'')) 255)
           (of_nat (vertical_bins (test_config True 4 ''No_ROI''))) 36 = Some v
     \<and> 0 \<le> v \<and> v \<le> 1"
proof -
  have h: "frequency_image_of (test_config True 4 ''No_ROI'') three_points
      = Inr [2 # replicate 35 0]"
    by (simp add: frequency_image_of_def three_points_def image_defs frame_defs list_eval)
  have p: "0 < vertical_bins (test_config True 4 ''No_ROI'')"
    "vertical_bins (test_config True 4 ''No_ROI'') * 36 < 2 ^ 32"
    by (simp_all add: test_config_def)
  show ?thesis
    using visibility_of_histogram[OF h p, of no_transform empty_output] by blast
qed

text \<open>
  C7. Each ring should get a count for each of the 36 sectors. On a ring of 37 points that
  all lie in the last sector (azimuth 35500) every cell of the row is 0: the loop over the
  sectors stops before the last one.
\<close>

theorem last_sector_never_counted:
  "createBinaryImage (test_config True 4 ''No_ROI'') last_sector_points = Inr [replicate 36 0]"
  by (simp add: last_sector_points_def image_defs frame_defs list_eval)

text \<open>
  C8. A ring id that is not below the maximum ring count should be rejected or clipped.
  With 128 rings and one point of ring id 128 the partition of the filter indexes its
  vector past the end; the partition of the visibility pass, with 128 rows, uses the
  checked access and fails with the out-of-range error.
\<close>

theorem ring_id_not_checked:
  "faster_filter ((test_config False 4 ''Fixed_xyz_ROI'')\<lparr>max_rings_num := 128\<rparr>) no_transform
     (test_cloud [test_point 0 1 128]) empty_output = ([], Inl UndefinedBehaviour)
   \<and> createBinaryImage ((test_config False 4 ''Fixed_xyz_ROI'')\<lparr>vertical_bins := 128\<rparr>)
     (test_cloud [test_point 0 1 128]) = Inl OutOfRange"
  by (simp add: faster_filter_def frame_defs filter_defs image_defs)

text \<open>
  C9, as stated, fails: for the raw azimuths current = 1 / 2 ^ 20 and next = 0, both in
  [0, 36000), the difference is negative, and its single-precision sum with 36000 is
  36000, outside [0, 36000).
\<close>

theorem azimuth_diff_rounds_to_36000:
  "azimuth_diff (1 / 2 ^ 20) 0 = 36000"
proof -
  have a: "float32 (- (1 / 2 ^ 20)) = - (1 / 2 ^ 20)"
    using float32_eval[of "- 20" "- (1 / 2 ^ 20)"] by (simp add: round_ties_even_def)
  have b: "float32 (- (1 / 2 ^ 20) + 36000) = 36000"
    using float32_eval[of 15 "- (1 / 2 ^ 20) + 36000"] by (simp add: round_ties_even_def)
  show ?thesis using a b by (simp add: azimuth_diff_def Let_def)
qed

text \<open>
  C9, amended. For every pair of raw azimuths in [0, 36000) the azimuth difference of the
  walk segmenter (next minus current, plus 36000 if negative, in single precision) lies in
  the closed interval [0, 36000]; for current = 35950 and next = 50 it is 100.
\<close>

theorem azimuth_diff_in_closed_range:
  assumes "0 \<le> current" "current < 36000" "0 \<le> nxt" "nxt < 36000"
  shows "0 \<le> azimuth_diff current nxt \<and> azimuth_diff current nxt \<le> 36000
         \<and> azimuth_diff 35950 50 = 100"
proof -
  define d where "d = float32 (nxt - current)"
  have d: "- 36000 \<le> d" "d \<le> 36000"
    using float32_bound[of "nxt - current"] assms by (simp_all add: d_def)
  have "0 \<le> float32 (d + 36000) \<and> float32 (d + 36000) \<le> 36000" if "d < 0"
    using float32_bound[of "d + 36000"] d that by simp
  then have "0 \<le> azimuth_diff current nxt \<and> azimuth_diff current nxt \<le> 36000"
    using d by (simp add: azimuth_diff_def Let_def flip: d_def)
  moreover have "azimuth_diff 35950 50 = 100"
    by (simp add: azimuth_diff_def Let_def float32_m35900 float32_100)
  ultimately show ?thesis by simp
qed

theorem azimuth_diff_in_closed_range_witness:
  "0 \<le> azimuth_diff 35950 50 \<and> azimuth_diff 35950 50 \<le> 36000
   \<and> azimuth_diff 35950 50 = 100"
  using azimuth_diff_in_closed_range [of 35950 50] by simp



end
